theory Spec2Isabelle
  imports Main "HOL-Library.Word" "HOL-Library.Multiset"
begin

section \<open>Data model\<close>

text \<open>
  The heightfield filters of \<^verbatim>\<open>Recast/Source/RecastFilter.cpp\<close>.

  A span is a node of a singly linked chain: two unsigned height bounds, an area byte and
  the \<^verbatim>\<open>next\<close> pointer. A column is the chain hanging off one entry of
  \<^verbatim>\<open>solid.spans\<close>; it is modelled as the list of its spans from the head on, so that
  \<^verbatim>\<open>s->next\<close> of the span at position \<open>k\<close> is the span at position \<open>k + 1\<close>, and the
  null pointer is the end of the list. Chains of different columns share no span (each column
  owns its chain), so a write to one span is a write to one position of one list.

  The source casts \<^verbatim>\<open>smin\<close> and \<^verbatim>\<open>smax\<close> to \<^verbatim>\<open>int\<close> before every use; they are
  natural numbers here and \<^term>\<open>int\<close> is the cast. The height fields are unsigned and
  no wider than the sentinel \<^verbatim>\<open>0xffff\<close> that the source uses for "no span above", so a
  difference of two heights is far inside the range of \<^verbatim>\<open>int\<close> and is written with
  the subtraction of the integers. The parameter \<^verbatim>\<open>walkableClimb\<close> is an arbitrary
  \<^verbatim>\<open>int\<close>: wherever the source negates it or subtracts with it, the model uses the 32-bit
  operations \<open>int_neg\<close> and \<open>int_sub\<close> below.
\<close>

record rcSpan =
  smin :: nat
  smax :: nat
  area :: "8 word"

record rcHeightfield =
  width :: int
  height :: int
  spans :: "rcSpan list list"

definition RC_NULL_AREA :: "8 word" where
  \<comment> \<open>Modelled from the spec: the constant is declared in \<^verbatim>\<open>Recast.h\<close>, which is not among
      the sources. The area byte is either the reserved sentinel "not walkable" or a positive
      area id, so the sentinel is the byte 0.\<close>
  "RC_NULL_AREA = 0"

definition MAX_HEIGHT :: int where
  "MAX_HEIGHT = 0xffff"

definition rcMin :: "int \<Rightarrow> int \<Rightarrow> int" where
  \<comment> \<open>Modelled from the spec: the helper of \<^verbatim>\<open>Recast.h\<close> returning the smaller argument.\<close>
  "rcMin a b = (if a < b then a else b)"

definition rcMax :: "int \<Rightarrow> int \<Rightarrow> int" where
  \<comment> \<open>Modelled from the spec: the helper of \<^verbatim>\<open>Recast.h\<close> returning the larger argument.\<close>
  "rcMax a b = (if a > b then a else b)"

definition rcAbs :: "int \<Rightarrow> int" where
  \<comment> \<open>Modelled from the spec: the helper of \<^verbatim>\<open>Recast.h\<close> returning the absolute value.\<close>
  "rcAbs a = (if a < 0 then - a else a)"

text \<open>
  The arithmetic of a 32-bit \<^verbatim>\<open>int\<close>. \<open>int_wrap\<close> maps an integer to the value of the same
  residue modulo \<open>2 ^ 32\<close> in \<open>[- 2 ^ 31, 2 ^ 31)\<close>: it is the identity on that range, and
  outside it gives the two's-complement result of an overflowing operation (which C++
  leaves undefined and compilers produce).
\<close>

definition INT_MAX :: int where
  "INT_MAX = 2147483647"

definition int_wrap :: "int \<Rightarrow> int" where
  "int_wrap v = (v + 2147483648) mod 4294967296 - 2147483648"

definition int_neg :: "int \<Rightarrow> int" where
  "int_neg a = int_wrap (- a)"

definition int_sub :: "int \<Rightarrow> int \<Rightarrow> int" where
  "int_sub a b = int_wrap (a - b)"

definition rcGetDirOffsetX :: "nat \<Rightarrow> int" where
  \<comment> \<open>Modelled from the spec: the neighbour table of \<^verbatim>\<open>Recast.h\<close>, a fixed mapping from the
      4 cardinal directions to grid offsets, in the order +x, +y, -x, -y.\<close>
  "rcGetDirOffsetX dir = (if dir = 0 then 1 else if dir = 2 then - 1 else 0)"

definition rcGetDirOffsetY :: "nat \<Rightarrow> int" where
  \<comment> \<open>Modelled from the spec: see \<open>rcGetDirOffsetX\<close>.\<close>
  "rcGetDirOffsetY dir = (if dir = 1 then 1 else if dir = 3 then - 1 else 0)"

text \<open>
  \<^verbatim>\<open>solid.spans[x + y*w]\<close>. The array has \<open>width * height\<close> entries, so the index of a cell
  of the grid is always in range on a well-formed heightfield (\<open>wf_heightfield\<close> below).
  The source does not check the index; outside that contract the model reads an empty column
  and writes nothing.
\<close>

definition column_index :: "int \<Rightarrow> int \<Rightarrow> int \<Rightarrow> nat" where
  "column_index w x y = nat (x + y * w)"

definition column_at :: "rcHeightfield \<Rightarrow> nat \<Rightarrow> rcSpan list" where
  "column_at solid i = (if i < length (spans solid) then spans solid ! i else [])"

definition wf_heightfield :: "rcHeightfield \<Rightarrow> bool" where
  "wf_heightfield solid \<longleftrightarrow>
     0 \<le> width solid \<and> 0 \<le> height solid \<and>
     length (spans solid) = nat (width solid * height solid)"

definition map_column :: "(rcSpan list \<Rightarrow> rcSpan list) \<Rightarrow> nat \<Rightarrow> rcHeightfield \<Rightarrow> rcHeightfield" where
  \<comment> \<open>Runs a loop over the chain of column \<open>i\<close> that only writes spans of that chain.\<close>
  "map_column f i solid = solid\<lparr>spans := (spans solid)[i := f (column_at solid i)]\<rparr>"

definition set_area :: "rcHeightfield \<Rightarrow> nat \<Rightarrow> nat \<Rightarrow> 8 word \<Rightarrow> rcHeightfield" where
  \<comment> \<open>\<^verbatim>\<open>s->area = a\<close> for the span at position \<open>k\<close> of column \<open>i\<close>.\<close>
  "set_area solid i k a =
     solid\<lparr>spans := (spans solid)[i := (column_at solid i)[k := (column_at solid i ! k)\<lparr>area := a\<rparr>]]\<rparr>"

section \<open>rcFilterLowHangingWalkableObstacles\<close>

text \<open>
  The loop over one chain. \<open>ps\<close> is the pointer to the previous span (\<open>None\<close> is the null
  pointer), \<open>previousWalkable\<close> and \<open>previousArea\<close> are the two carried locals. The source
  dereferences \<open>ps\<close> only when \<open>previousWalkable\<close> holds, which the first iteration excludes:
  the \<open>None\<close> branch below is never reached from the initial state.
\<close>

fun lowhang_spans :: "int \<Rightarrow> rcSpan option \<Rightarrow> bool \<Rightarrow> 8 word \<Rightarrow> rcSpan list \<Rightarrow> rcSpan list" where
  "lowhang_spans walkableClimb ps previousWalkable previousArea [] = []"
| "lowhang_spans walkableClimb ps previousWalkable previousArea (s # rest) =
     (let walkable = (area s \<noteq> RC_NULL_AREA);
          s' = (if \<not> walkable \<and> previousWalkable then
                  (case ps of
                     None \<Rightarrow> s
                   | Some p \<Rightarrow>
                       if rcAbs (int (smax s) - int (smax p)) \<le> walkableClimb
                       then s\<lparr>area := previousArea\<rparr> else s)
                else s)
      in s' # lowhang_spans walkableClimb (Some s') walkable (area s') rest)"

definition lowhang_column :: "int \<Rightarrow> rcSpan list \<Rightarrow> rcSpan list" where
  "lowhang_column walkableClimb col = lowhang_spans walkableClimb None False RC_NULL_AREA col"

definition rcFilterLowHangingWalkableObstacles :: "int \<Rightarrow> rcHeightfield \<Rightarrow> rcHeightfield" where
  "rcFilterLowHangingWalkableObstacles walkableClimb solid =
     (let w = width solid; h = height solid
      in fold (\<lambda>y. fold (\<lambda>x. map_column (lowhang_column walkableClimb) (column_index w x y))
                     [0..w - 1])
              [0..h - 1] solid)"

section \<open>rcFilterLedgeSpans\<close>

text \<open>
  The scan state is the triple \<open>(minh, asmin, asmax)\<close>. \<open>scan_rest\<close> is the loop over the real
  spans of one neighbour column ("Rest of the spans"), \<open>scan_dir\<close> is the body of the loop
  over the four directions, \<open>ledge_span\<close> is the body of the loop over the chain of column
  \<open>(x, y)\<close> for the span at position \<open>k\<close>. Every read of \<open>ledge_span\<close> is a read of the
  heightfield as it is when the span is examined: the pass runs in place. The locals
  \<^verbatim>\<open>bot\<close> and \<^verbatim>\<open>top\<close> of the source are \<open>sbot\<close> and \<open>stop\<close> here (the two names are
  lattice constants of HOL).
\<close>

fun scan_rest :: "int \<Rightarrow> int \<Rightarrow> int \<Rightarrow> int \<Rightarrow> rcSpan list \<Rightarrow> int \<times> int \<times> int \<Rightarrow> int \<times> int \<times> int" where
  "scan_rest walkableHeight walkableClimb sbot stop [] st = st"
| "scan_rest walkableHeight walkableClimb sbot stop (ns # rest) (minh, asmin, asmax) =
     (let nbot = int (smax ns);
          ntop = (case rest of [] \<Rightarrow> MAX_HEIGHT | n # _ \<Rightarrow> int (smin n))
      in if rcMin stop ntop - rcMax sbot nbot > walkableHeight then
           (let minh' = rcMin minh (nbot - sbot)
            in if rcAbs (nbot - sbot) \<le> walkableClimb then
                 (let asmin' = (if nbot < asmin then nbot else asmin);
                      asmax' = (if nbot > asmax then nbot else asmax)
                  in scan_rest walkableHeight walkableClimb sbot stop rest (minh', asmin', asmax'))
               else scan_rest walkableHeight walkableClimb sbot stop rest (minh', asmin, asmax))
         else scan_rest walkableHeight walkableClimb sbot stop rest (minh, asmin, asmax))"

definition scan_dir ::
  "int \<Rightarrow> int \<Rightarrow> int \<Rightarrow> int \<Rightarrow> rcHeightfield \<Rightarrow> int \<Rightarrow> int \<Rightarrow> int \<Rightarrow> int \<Rightarrow> nat
     \<Rightarrow> int \<times> int \<times> int \<Rightarrow> int \<times> int \<times> int" where
  "scan_dir walkableHeight walkableClimb w h solid x y sbot stop dir st =
     (case st of (minh, asmin, asmax) \<Rightarrow>
        (let dx = x + rcGetDirOffsetX dir;
             dy = y + rcGetDirOffsetY dir
         in if dx < 0 \<or> dy < 0 \<or> dx \<ge> w \<or> dy \<ge> h then
              (rcMin minh (int_sub (int_neg walkableClimb) sbot), asmin, asmax)
            else
              (let col = column_at solid (column_index w dx dy);
                   nbot = int_neg walkableClimb;
                   ntop = (case col of [] \<Rightarrow> MAX_HEIGHT | n # _ \<Rightarrow> int (smin n));
                   minh1 = (if int_sub (rcMin stop ntop) (rcMax sbot nbot) > walkableHeight
                            then rcMin minh (int_sub nbot sbot) else minh)
               in scan_rest walkableHeight walkableClimb sbot stop col (minh1, asmin, asmax))))"

definition ledge_scan ::
  "int \<Rightarrow> int \<Rightarrow> int \<Rightarrow> int \<Rightarrow> rcHeightfield \<Rightarrow> int \<Rightarrow> int \<Rightarrow> int \<Rightarrow> int \<Rightarrow> int \<times> int \<times> int" where
  \<comment> \<open>The loop over the four directions, from the initial \<open>minh\<close>, \<open>asmin\<close>, \<open>asmax\<close>.\<close>
  "ledge_scan walkableHeight walkableClimb w h solid x y sbot stop =
     fold (scan_dir walkableHeight walkableClimb w h solid x y sbot stop) [0..<4]
          (MAX_HEIGHT, sbot, sbot)"

definition ledge_span ::
  "int \<Rightarrow> int \<Rightarrow> int \<Rightarrow> int \<Rightarrow> int \<Rightarrow> int \<Rightarrow> nat \<Rightarrow> rcHeightfield \<Rightarrow> rcHeightfield" where
  "ledge_span walkableHeight walkableClimb w h x y k solid =
     (let i = column_index w x y;
          col = column_at solid i;
          s = col ! k
      in if area s = RC_NULL_AREA then solid
         else
           (let sbot = int (smax s);
                stop = (if Suc k < length col then int (smin (col ! Suc k)) else MAX_HEIGHT)
            in case ledge_scan walkableHeight walkableClimb w h solid x y sbot stop of
                 (minh, asmin, asmax) \<Rightarrow>
                   if minh < int_neg walkableClimb then set_area solid i k RC_NULL_AREA
                   else if asmax - asmin > walkableClimb then set_area solid i k RC_NULL_AREA
                   else solid))"

definition ledge_column ::
  "int \<Rightarrow> int \<Rightarrow> int \<Rightarrow> int \<Rightarrow> int \<Rightarrow> int \<Rightarrow> rcHeightfield \<Rightarrow> rcHeightfield" where
  \<comment> \<open>The loop over the chain of column \<open>(x, y)\<close>. The body writes area bytes only, so the
      chain it walks is the chain found at loop entry.\<close>
  "ledge_column walkableHeight walkableClimb w h x y solid =
     fold (ledge_span walkableHeight walkableClimb w h x y)
          [0..<length (column_at solid (column_index w x y))] solid"

definition rcFilterLedgeSpans :: "int \<Rightarrow> int \<Rightarrow> rcHeightfield \<Rightarrow> rcHeightfield" where
  "rcFilterLedgeSpans walkableHeight walkableClimb solid =
     (let w = width solid; h = height solid
      in fold (\<lambda>y. fold (\<lambda>x. ledge_column walkableHeight walkableClimb w h x y) [0..w - 1])
              [0..h - 1] solid)"

section \<open>rcFilterWalkableLowHeightSpans\<close>

fun lowheight_spans :: "int \<Rightarrow> rcSpan list \<Rightarrow> rcSpan list" where
  "lowheight_spans walkableHeight [] = []"
| "lowheight_spans walkableHeight (s # rest) =
     (let sbot = int (smax s);
          stop = (case rest of [] \<Rightarrow> MAX_HEIGHT | n # _ \<Rightarrow> int (smin n))
      in (if stop - sbot \<le> walkableHeight then s\<lparr>area := RC_NULL_AREA\<rparr> else s)
         # lowheight_spans walkableHeight rest)"

definition rcFilterWalkableLowHeightSpans :: "int \<Rightarrow> rcHeightfield \<Rightarrow> rcHeightfield" where
  "rcFilterWalkableLowHeightSpans walkableHeight solid =
     (let w = width solid; h = height solid
      in fold (\<lambda>y. fold (\<lambda>x. map_column (lowheight_spans walkableHeight) (column_index w x y))
                     [0..w - 1])
              [0..h - 1] solid)"

section \<open>Structure of a heightfield and example heightfields\<close>

text \<open>
  Everything of a heightfield except the area bytes: the grid dimensions, the number of
  columns and, for every column, its chain as the list of the height bounds of its spans in
  chain order.
\<close>

definition geometry :: "rcHeightfield \<Rightarrow> int \<times> int \<times> (nat \<times> nat) list list" where
  "geometry solid = (width solid, height solid, map (map (\<lambda>s. (smin s, smax s))) (spans solid))"

definition span :: "nat \<Rightarrow> nat \<Rightarrow> 8 word \<Rightarrow> rcSpan" where
  "span lo hi a = \<lparr>smin = lo, smax = hi, area = a\<rparr>"

text \<open>
  A 3 x 3 grid. The centre column holds a walkable span \<open>[0, 1)\<close> and, above a gap, a
  non-walkable span \<open>[3, 4)\<close>; each of the four neighbour columns holds one span
  \<open>[3, 4)\<close>; the corner columns are empty.
\<close>

definition override_example :: rcHeightfield where
  "override_example =
     \<lparr>width = 3, height = 3,
      spans = [[], [span 3 4 0], [],
               [span 3 4 0], [span 0 1 1, span 3 4 0], [span 3 4 0],
               [], [span 3 4 0], []]\<rparr>"

text \<open>
  The indices of \<^verbatim>\<open>solid.spans\<close> that the loops over \<open>y\<close> and \<open>x\<close> reach.
\<close>

definition in_grid_index :: "int \<Rightarrow> int \<Rightarrow> nat \<Rightarrow> bool" where
  "in_grid_index w h j \<longleftrightarrow> 0 < w \<and> 0 < h \<and> int j < w * h"

text \<open>
  The clearance above the span at position \<open>k\<close> of a chain: the next span's \<open>smin\<close>, or the
  unbounded sentinel for the topmost span, minus the span's \<open>smax\<close>.
\<close>

definition clearance :: "rcSpan list \<Rightarrow> nat \<Rightarrow> int" where
  "clearance col k =
     (if Suc k < length col then int (smin (col ! Suc k)) else MAX_HEIGHT) - int (smax (col ! k))"

text \<open>
  The condition of the low-obstacle pass, read on the chain as it is before the pass: the
  span at position \<open>k\<close> is not walkable, it has a predecessor, the predecessor is walkable,
  and the two top surfaces are at most \<open>walkableClimb\<close> apart.
\<close>

definition lowhang_rescued :: "int \<Rightarrow> rcSpan list \<Rightarrow> nat \<Rightarrow> bool" where
  "lowhang_rescued walkableClimb col k \<longleftrightarrow>
     0 < k \<and> area (col ! k) = RC_NULL_AREA \<and> area (col ! (k - 1)) \<noteq> RC_NULL_AREA \<and>
     \<bar>int (smax (col ! k)) - int (smax (col ! (k - 1)))\<bar> \<le> walkableClimb"

text \<open>
  One column: a walkable span with top 0 and area \<open>a\<close>, then two non-walkable spans with
  tops 1 and 2.
\<close>

definition single_hop_example :: "8 word \<Rightarrow> rcHeightfield" where
  "single_hop_example a =
     \<lparr>width = 1, height = 1, spans = [[span 0 0 a, span 0 1 0, span 1 2 0]]\<rparr>"

section \<open>The ledge pass read on one heightfield\<close>

text \<open>
  The decision of lines 105 to 167 of the source for the span at position \<open>k\<close> of column
  \<open>(x, y)\<close>, with every read taken from the one heightfield \<open>solid\<close>: the scan of the four
  directions, then the two tests.
\<close>

definition ledge_decision ::
  "int \<Rightarrow> int \<Rightarrow> int \<Rightarrow> int \<Rightarrow> rcHeightfield \<Rightarrow> int \<Rightarrow> int \<Rightarrow> nat \<Rightarrow> bool" where
  "ledge_decision walkableHeight walkableClimb w h solid x y k =
     (let col = column_at solid (column_index w x y);
          sbot = int (smax (col ! k));
          stop = (if Suc k < length col then int (smin (col ! Suc k)) else MAX_HEIGHT)
      in case ledge_scan walkableHeight walkableClimb w h solid x y sbot stop of
           (minh, asmin, asmax) \<Rightarrow>
             minh < int_neg walkableClimb \<or> asmax - asmin > walkableClimb)"

text \<open>
  Snapshot semantics: what the pass makes of a span when the decision is computed from the
  heightfield as it is before the pass.
\<close>

definition ledge_snapshot_span ::
  "int \<Rightarrow> int \<Rightarrow> rcHeightfield \<Rightarrow> int \<Rightarrow> int \<Rightarrow> nat \<Rightarrow> rcSpan" where
  "ledge_snapshot_span walkableHeight walkableClimb solid x y k =
     (let s = column_at solid (column_index (width solid) x y) ! k
      in if area s \<noteq> RC_NULL_AREA \<and>
            ledge_decision walkableHeight walkableClimb (width solid) (height solid) solid x y k
         then s\<lparr>area := RC_NULL_AREA\<rparr> else s)"

text \<open>
  The pass with the columns visited in an arbitrary order, given as a list of cells \<open>(y, x)\<close>.
  \<open>rcFilterLedgeSpans\<close> is the row-major order.
\<close>

definition ledge_pass_in_order ::
  "int \<Rightarrow> int \<Rightarrow> (int \<times> int) list \<Rightarrow> rcHeightfield \<Rightarrow> rcHeightfield" where
  "ledge_pass_in_order walkableHeight walkableClimb order solid =
     (let w = width solid; h = height solid
      in fold (\<lambda>(y, x). ledge_column walkableHeight walkableClimb w h x y) order solid)"

text \<open>
  For the proofs: the spans that the visits of a set of cells mark, and the state of the
  heightfield after such visits, relative to the heightfield \<open>solid0\<close> before the pass.
\<close>

definition ledge_marks ::
  "int \<Rightarrow> int \<Rightarrow> rcHeightfield \<Rightarrow> (int \<times> int) set \<Rightarrow> (nat \<times> nat) set" where
  "ledge_marks wh wc solid0 cells =
     {(column_index (width solid0) x y, k) | x y k.
        (y, x) \<in> cells \<and> k < length (column_at solid0 (column_index (width solid0) x y)) \<and>
        ledge_decision wh wc (width solid0) (height solid0) solid0 x y k}"

definition ledge_inv :: "rcHeightfield \<Rightarrow> (nat \<times> nat) set \<Rightarrow> rcHeightfield \<Rightarrow> bool" where
  "ledge_inv solid0 M solid \<longleftrightarrow>
     width solid = width solid0 \<and> height solid = height solid0 \<and>
     length (spans solid) = length (spans solid0) \<and>
     (\<forall>i < length (spans solid0).
        length (spans solid ! i) = length (spans solid0 ! i) \<and>
        (\<forall>k < length (spans solid0 ! i).
           spans solid ! i ! k =
             (if area (spans solid0 ! i ! k) \<noteq> RC_NULL_AREA \<and> (i, k) \<in> M
              then (spans solid0 ! i ! k)\<lparr>area := RC_NULL_AREA\<rparr> else spans solid0 ! i ! k)))"

section \<open>The ledge rule in the words of the specification\<close>

text \<open>
  The candidates of a neighbour column are pairs \<open>(nbot, ntop)\<close>: the virtual span below the
  lowest real span, and one candidate per real span. A candidate counts when its overlap
  with the gap above the span under evaluation exceeds \<open>walkableHeight\<close>; it is accessible when
  moreover \<open>nbot\<close> is within \<open>walkableClimb\<close> of \<open>bot\<close>. A direction outside the grid offers
  the single drop \<open>- walkableClimb - bot\<close> and no accessible height.

  \<open>ledge_rule with_virtual\<close> is the rule "\<open>minh < - walkableClimb\<close> or
  \<open>asmax - asmin > walkableClimb\<close>" on these lists, \<open>minh\<close> being the minimum of the unbounded
  sentinel and all drops, and \<open>asmin\<close>, \<open>asmax\<close> the minimum and maximum of \<open>bot\<close> and all
  accessible heights. With \<open>with_virtual = True\<close> the virtual span takes part in
  \<open>asmin\<close>/\<open>asmax\<close>; with \<open>False\<close> only real spans do.
\<close>

fun real_candidates :: "rcSpan list \<Rightarrow> (int \<times> int) list" where
  "real_candidates [] = []"
| "real_candidates (ns # rest) =
     (int (smax ns), (case rest of [] \<Rightarrow> MAX_HEIGHT | n # _ \<Rightarrow> int (smin n)))
     # real_candidates rest"

definition virtual_candidate :: "int \<Rightarrow> rcSpan list \<Rightarrow> int \<times> int" where
  "virtual_candidate walkableClimb col =
     (- walkableClimb, (case col of [] \<Rightarrow> MAX_HEIGHT | n # _ \<Rightarrow> int (smin n)))"

definition sufficient_overlap :: "int \<Rightarrow> int \<Rightarrow> int \<Rightarrow> int \<times> int \<Rightarrow> bool" where
  "sufficient_overlap walkableHeight sbot stop c \<longleftrightarrow>
     min stop (snd c) - max sbot (fst c) > walkableHeight"

definition accessible :: "int \<Rightarrow> int \<Rightarrow> int \<times> int \<Rightarrow> bool" where
  "accessible walkableClimb sbot c \<longleftrightarrow> \<bar>fst c - sbot\<bar> \<le> walkableClimb"

definition neighbour_outside :: "int \<Rightarrow> int \<Rightarrow> int \<Rightarrow> int \<Rightarrow> nat \<Rightarrow> bool" where
  "neighbour_outside w h x y dir \<longleftrightarrow>
     x + rcGetDirOffsetX dir < 0 \<or> y + rcGetDirOffsetY dir < 0 \<or>
     w \<le> x + rcGetDirOffsetX dir \<or> h \<le> y + rcGetDirOffsetY dir"

definition neighbour_column :: "int \<Rightarrow> rcHeightfield \<Rightarrow> int \<Rightarrow> int \<Rightarrow> nat \<Rightarrow> rcSpan list" where
  "neighbour_column w solid x y dir =
     column_at solid (column_index w (x + rcGetDirOffsetX dir) (y + rcGetDirOffsetY dir))"

definition drop_values ::
  "int \<Rightarrow> int \<Rightarrow> int \<Rightarrow> int \<Rightarrow> rcHeightfield \<Rightarrow> int \<Rightarrow> int \<Rightarrow> int \<Rightarrow> int \<Rightarrow> nat \<Rightarrow> int list" where
  "drop_values walkableHeight walkableClimb w h solid x y sbot stop dir =
     (if neighbour_outside w h x y dir then [- walkableClimb - sbot]
      else map (\<lambda>c. fst c - sbot)
             (filter (sufficient_overlap walkableHeight sbot stop)
                (virtual_candidate walkableClimb (neighbour_column w solid x y dir)
                 # real_candidates (neighbour_column w solid x y dir))))"

definition accessible_heights ::
  "bool \<Rightarrow> int \<Rightarrow> int \<Rightarrow> int \<Rightarrow> int \<Rightarrow> rcHeightfield \<Rightarrow> int \<Rightarrow> int \<Rightarrow> int \<Rightarrow> int \<Rightarrow> nat
     \<Rightarrow> int list" where
  "accessible_heights with_virtual walkableHeight walkableClimb w h solid x y sbot stop dir =
     (if neighbour_outside w h x y dir then []
      else map fst
             (filter (\<lambda>c. sufficient_overlap walkableHeight sbot stop c \<and>
                          accessible walkableClimb sbot c)
                ((if with_virtual
                  then [virtual_candidate walkableClimb (neighbour_column w solid x y dir)]
                  else [])
                 @ real_candidates (neighbour_column w solid x y dir))))"

definition ledge_rule :: "bool \<Rightarrow> int \<Rightarrow> int \<Rightarrow> rcHeightfield \<Rightarrow> int \<Rightarrow> int \<Rightarrow> nat \<Rightarrow> bool" where
  "ledge_rule with_virtual walkableHeight walkableClimb solid x y k =
     (let w = width solid; h = height solid;
          col = column_at solid (column_index w x y);
          sbot = int (smax (col ! k));
          stop = (if Suc k < length col then int (smin (col ! Suc k)) else MAX_HEIGHT);
          minh = Min (set (MAX_HEIGHT #
                   concat (map (drop_values walkableHeight walkableClimb w h solid x y sbot stop)
                             [0..<4])));
          acc = concat (map (accessible_heights with_virtual walkableHeight walkableClimb
                               w h solid x y sbot stop) [0..<4]);
          asmin = Min (set (sbot # acc));
          asmax = Max (set (sbot # acc))
      in minh < - walkableClimb \<or> asmax - asmin > walkableClimb)"

section \<open>Example heightfields for the ledge pass\<close>

text \<open>
  A 3 x 1 grid: an empty column, a column with one walkable span whose top is 0, and a column
  with one span whose top is 1.
\<close>

definition ledge_virtual_example :: rcHeightfield where
  "ledge_virtual_example = \<lparr>width = 3, height = 1, spans = [[], [span 0 0 1], [span 0 1 0]]\<rparr>"


text \<open>
  A 3 x 2 grid in which every column holds one walkable span with top 0. The cell \<open>(1, 0)\<close>
  misses exactly one neighbour, the one in direction 3.
\<close>

definition edge_example :: rcHeightfield where
  "edge_example =
     \<lparr>width = 3, height = 2,
      spans = [[span 0 0 1], [span 0 0 1], [span 0 0 1],
               [span 0 0 1], [span 0 0 1], [span 0 0 1]]\<rparr>"

text \<open>
  A 1 x 1 grid with one walkable span \<open>[0, 2)\<close>.
\<close>

definition lone_span_example :: rcHeightfield where
  "lone_span_example = \<lparr>width = 1, height = 1, spans = [[span 0 2 1]]\<rparr>"

section \<open>Ranges\<close>

text \<open>
  The heights of a heightfield are bounded when no \<open>smin\<close> or \<open>smax\<close> exceeds the sentinel
  \<open>MAX_HEIGHT\<close>. A \<open>walkableClimb\<close> is in range when neither its negation nor the drop
  \<open>- walkableClimb - bot\<close> below a bounded height leaves the 32-bit integers.
\<close>

definition heights_bounded :: "rcHeightfield \<Rightarrow> bool" where
  "heights_bounded solid \<longleftrightarrow>
     (\<forall>col \<in> set (spans solid). \<forall>s \<in> set col.
        int (smin s) \<le> MAX_HEIGHT \<and> int (smax s) \<le> MAX_HEIGHT)"

definition walkableClimb_in_range :: "int \<Rightarrow> bool" where
  "walkableClimb_in_range walkableClimb \<longleftrightarrow>
     - INT_MAX \<le> walkableClimb \<and> walkableClimb \<le> INT_MAX - MAX_HEIGHT"

section \<open>Evaluation on concrete heightfields\<close>

lemmas filter_defs =
  rcFilterLedgeSpans_def rcFilterLowHangingWalkableObstacles_def
  rcFilterWalkableLowHeightSpans_def
  ledge_column_def ledge_span_def ledge_scan_def scan_dir_def map_column_def column_at_def
  column_index_def set_area_def lowhang_column_def RC_NULL_AREA_def MAX_HEIGHT_def
  rcMin_def rcMax_def rcAbs_def int_neg_def int_sub_def int_wrap_def
  rcGetDirOffsetX_def rcGetDirOffsetY_def span_def
  upto.simps upt_rec[of _ "numeral _"] Let_def

section \<open>The passes write area bytes only\<close>

lemma fold_invariant:
  assumes "\<And>x s. P (f x s) = P s"
  shows "P (fold f xs s) = P s"
  using assms by (induction xs arbitrary: s) simp_all

lemma map_update_same:
  assumes "i < length xs \<Longrightarrow> g v = g (xs ! i)"
  shows "map g (xs[i := v]) = map g xs"
  using assms by (cases "i < length xs") (auto simp: list_eq_iff_nth_eq nth_list_update)

lemma geometry_map_column:
  assumes "\<And>col. map (\<lambda>s. (smin s, smax s)) (f col) = map (\<lambda>s. (smin s, smax s)) col"
  shows "geometry (map_column f i solid) = geometry solid"
  by (simp add: geometry_def map_column_def column_at_def map_update_same assms)

lemma geometry_set_area: "geometry (set_area solid i k a) = geometry solid"
  by (simp add: geometry_def set_area_def column_at_def map_update_same)

lemma lowhang_spans_geometry:
  "map (\<lambda>s. (smin s, smax s)) (lowhang_spans wc ps pw pa col) = map (\<lambda>s. (smin s, smax s)) col"
  by (induction col arbitrary: ps pw pa) (auto simp: Let_def split: option.splits)

lemma lowhang_column_geometry:
  "map (\<lambda>s. (smin s, smax s)) (lowhang_column wc col) = map (\<lambda>s. (smin s, smax s)) col"
  by (simp add: lowhang_column_def lowhang_spans_geometry)

lemma lowheight_spans_geometry:
  "map (\<lambda>s. (smin s, smax s)) (lowheight_spans wh col) = map (\<lambda>s. (smin s, smax s)) col"
  by (induction col) (auto simp: Let_def)

lemma ledge_span_geometry: "geometry (ledge_span wh wc w h x y k solid) = geometry solid"
  by (simp add: ledge_span_def Let_def geometry_set_area split: prod.splits)

lemma ledge_column_geometry: "geometry (ledge_column wh wc w h x y solid) = geometry solid"
  unfolding ledge_column_def by (rule fold_invariant) (rule ledge_span_geometry)

lemma lowhang_geometry: "geometry (rcFilterLowHangingWalkableObstacles wc solid) = geometry solid"
  unfolding rcFilterLowHangingWalkableObstacles_def Let_def
  by (intro fold_invariant geometry_map_column lowhang_column_geometry)

lemma lowheight_geometry: "geometry (rcFilterWalkableLowHeightSpans wh solid) = geometry solid"
  unfolding rcFilterWalkableLowHeightSpans_def Let_def
  by (intro fold_invariant geometry_map_column lowheight_spans_geometry)

lemma ledge_geometry: "geometry (rcFilterLedgeSpans wh wc solid) = geometry solid"
  unfolding rcFilterLedgeSpans_def Let_def
  by (intro fold_invariant ledge_column_geometry)

text \<open>
  C9. Each of the three passes changes area bytes only: for every heightfield and all
  parameters, the grid dimensions, the number of columns and every column's chain (how many
  spans, in which order, with which \<open>smin\<close> and \<open>smax\<close>) are the same after the pass as
  before it.
\<close>

theorem filters_preserve_structure:
  "geometry (rcFilterLowHangingWalkableObstacles walkableClimb solid) = geometry solid \<and>
   geometry (rcFilterLedgeSpans walkableHeight walkableClimb solid) = geometry solid \<and>
   geometry (rcFilterWalkableLowHeightSpans walkableHeight solid) = geometry solid"
  by (simp add: lowhang_geometry ledge_geometry lowheight_geometry)

section \<open>The low-obstacle pass and the ledge pass do not commute\<close>

lemma override_example_orders:
  "rcFilterLedgeSpans 1 3 (rcFilterLowHangingWalkableObstacles 3 override_example) \<noteq>
   rcFilterLowHangingWalkableObstacles 3 (rcFilterLedgeSpans 1 3 override_example)"
  by (simp add: override_example_def filter_defs)

text \<open>
  C8. There are a heightfield and parameters \<open>walkableHeight > 0\<close>, \<open>walkableClimb \<ge> 0\<close>
  for which the low-obstacle pass followed by the ledge pass ends in another area assignment
  than the ledge pass followed by the low-obstacle pass.
\<close>

theorem lowhang_ledge_not_commute:
  "\<exists>solid walkableHeight walkableClimb.
     0 < walkableHeight \<and> 0 \<le> walkableClimb \<and>
     rcFilterLedgeSpans walkableHeight walkableClimb
       (rcFilterLowHangingWalkableObstacles walkableClimb solid) \<noteq>
     rcFilterLowHangingWalkableObstacles walkableClimb
       (rcFilterLedgeSpans walkableHeight walkableClimb solid)"
proof -
  have "(0::int) < 1 \<and> (0::int) \<le> 3" by simp
  with override_example_orders show ?thesis by blast
qed

section \<open>The loops over the grid\<close>

lemma fold_product:
  "fold (\<lambda>y. fold (\<lambda>x. g x y) xs) ys s = fold (\<lambda>(y, x). g x y) (List.product ys xs) s"
  by (induction ys arbitrary: s) (simp_all add: fold_map comp_def)

lemma fold_map_column:
  assumes "distinct (map idx cs)"
  shows "fold (\<lambda>c. map_column f (idx c)) cs solid =
         solid\<lparr>spans := map (\<lambda>j. if j \<in> idx ` set cs then f (spans solid ! j) else spans solid ! j)
                            [0..<length (spans solid)]\<rparr>"
  using assms
proof (induction cs arbitrary: solid)
  case Nil
  then show ?case by (simp add: map_nth)
next
  case (Cons c cs)
  then show ?case
    by (auto simp: map_column_def column_at_def nth_list_update)
qed

lemma column_index_inj:
  assumes "0 \<le> x" "x < w" "0 \<le> x'" "x' < w" "0 \<le> y" "0 \<le> y'"
    and "column_index w x y = column_index w x' y'"
  shows "x = x' \<and> y = y'"
proof -
  have w: "0 < w" using assms by linarith
  have "0 \<le> x + y * w" "0 \<le> x' + y' * w" using assms w by simp_all
  with assms(7) have e: "x + y * w = x' + y' * w" by (simp add: column_index_def)
  have "(x + y * w) mod w = x" "(x' + y' * w) mod w = x'" using assms by simp_all
  with e have "x = x'" by metis
  with e w have "y = y'" by simp
  with \<open>x = x'\<close> show ?thesis by simp
qed

lemma column_index_image:
  "(\<lambda>(y, x). column_index w x y) ` ({0..h - 1} \<times> {0..w - 1}) = {j. in_grid_index w h j}"
proof (intro set_eqI iffI)
  fix j assume "j \<in> (\<lambda>(y, x). column_index w x y) ` ({0..h - 1} \<times> {0..w - 1})"
  then obtain x y where xy: "0 \<le> x" "x < w" "0 \<le> y" "y < h" and j: "j = column_index w x y"
    by auto
  have "x + y * w < w + y * w" using xy by simp
  also have "\<dots> = (y + 1) * w" by (simp add: algebra_simps)
  also have "\<dots> \<le> h * w" using xy by (intro mult_right_mono) simp_all
  finally have "x + y * w < w * h" by (simp add: mult.commute)
  moreover have "0 \<le> x + y * w" using xy by simp
  ultimately show "j \<in> {j. in_grid_index w h j}"
    using xy j by (simp add: in_grid_index_def column_index_def)
next
  fix j assume "j \<in> {j. in_grid_index w h j}"
  then have w: "0 < w" and h: "0 < h" and j: "int j < w * h" by (simp_all add: in_grid_index_def)
  let ?x = "int j mod w" and ?y = "int j div w"
  have "0 \<le> ?x" "?x < w" "0 \<le> ?y" using w by (simp_all add: pos_imp_zdiv_nonneg_iff)
  moreover have "?y < h"
  proof (rule ccontr)
    assume "\<not> ?y < h"
    then have "h * w \<le> ?y * w" using w by (intro mult_right_mono) simp_all
    also have "\<dots> \<le> int j" using \<open>0 \<le> ?x\<close> div_mult_mod_eq[of "int j" w] by linarith
    finally show False using j by (simp add: mult.commute)
  qed
  moreover have "column_index w ?x ?y = j" by (simp add: column_index_def)
  ultimately show "j \<in> (\<lambda>(y, x). column_index w x y) ` ({0..h - 1} \<times> {0..w - 1})"
    by (force simp: image_iff intro!: bexI[of _ "(?y, ?x)"])
qed

lemma distinct_grid_indices:
  "distinct (map (\<lambda>(y, x). column_index w x y) (List.product [0..h - 1] [0..w - 1]))"
proof -
  have "inj_on (\<lambda>(y, x). column_index w x y) (set (List.product [0..h - 1] [0..w - 1]))"
    by (rule inj_onI) (use column_index_inj in \<open>auto; fastforce\<close>)
  then show ?thesis by (simp add: distinct_map distinct_product)
qed

lemma column_pass_closed:
  "fold (\<lambda>y. fold (\<lambda>x. map_column f (column_index w x y)) [0..w - 1]) [0..h - 1] solid =
   solid\<lparr>spans := map (\<lambda>j. if in_grid_index w h j then f (spans solid ! j) else spans solid ! j)
                      [0..<length (spans solid)]\<rparr>"
proof -
  have "fold (\<lambda>y. fold (\<lambda>x. map_column f (column_index w x y)) [0..w - 1]) [0..h - 1] solid =
        fold (\<lambda>c. map_column f ((\<lambda>(y, x). column_index w x y) c)) (List.product [0..h - 1] [0..w - 1]) solid"
    by (simp add: fold_product case_prod_unfold)
  also have "\<dots> = solid\<lparr>spans := map (\<lambda>j. if j \<in> (\<lambda>(y, x). column_index w x y) ` set (List.product [0..h - 1] [0..w - 1]) then f (spans solid ! j) else spans solid ! j)
                      [0..<length (spans solid)]\<rparr>"
    by (rule fold_map_column) (rule distinct_grid_indices)
  finally show ?thesis using column_index_image[of w h] by simp
qed

lemma wf_in_grid_index:
  "wf_heightfield solid \<Longrightarrow> j < length (spans solid) \<Longrightarrow> in_grid_index (width solid) (height solid) j"
  using in_grid_index_def not_gr_zero wf_heightfield_def
    by fastforce

lemma column_pass_wf:
  assumes "wf_heightfield solid"
  shows "fold (\<lambda>y. fold (\<lambda>x. map_column f (column_index (width solid) x y)) [0..width solid - 1])
              [0..height solid - 1] solid = solid\<lparr>spans := map f (spans solid)\<rparr>"
proof -
  have "\<And>j. j < length (spans solid) \<Longrightarrow> in_grid_index (width solid) (height solid) j"
    by (rule wf_in_grid_index[OF assms])
  then have eq: "map (\<lambda>j. if in_grid_index (width solid) (height solid) j then f (spans solid ! j) else spans solid ! j)
          [0..<length (spans solid)] = map f (spans solid)"
    by (intro nth_equalityI) simp_all
  show ?thesis unfolding column_pass_closed eq ..
qed

lemma lowhang_wf:
  "wf_heightfield solid \<Longrightarrow>
   rcFilterLowHangingWalkableObstacles wc solid = solid\<lparr>spans := map (lowhang_column wc) (spans solid)\<rparr>"
  by (simp only: rcFilterLowHangingWalkableObstacles_def Let_def column_pass_wf)

lemma lowheight_wf:
  "wf_heightfield solid \<Longrightarrow>
   rcFilterWalkableLowHeightSpans wh solid = solid\<lparr>spans := map (lowheight_spans wh) (spans solid)\<rparr>"
  by (simp only: rcFilterWalkableLowHeightSpans_def Let_def column_pass_wf)

section \<open>rcFilterWalkableLowHeightSpans: clearance\<close>

lemma lowheight_spans_length: "length (lowheight_spans wh col) = length col"
  by (induction col) (simp_all add: Let_def)

lemma lowheight_spans_nth:
  "k < length col \<Longrightarrow>
   lowheight_spans wh col ! k =
     (if clearance col k \<le> wh then (col ! k)\<lparr>area := RC_NULL_AREA\<rparr> else col ! k)"
proof (induction col arbitrary: k)
  case Nil
  then show ?case by simp
next
  case (Cons s rest)
  show ?case
  proof (cases k)
    case 0
    then show ?thesis by (cases rest) (simp_all add: clearance_def Let_def)
  next
    case (Suc k')
    with Cons show ?thesis by (simp add: clearance_def)
  qed
qed

lemma clearance_lowheight: "k < length col \<Longrightarrow> clearance (lowheight_spans wh col) k = clearance col k"
  by (simp add: clearance_def lowheight_spans_length lowheight_spans_nth)

lemma lowheight_spans_idem: "lowheight_spans wh (lowheight_spans wh col) = lowheight_spans wh col"
  by (simp add: list_eq_iff_nth_eq lowheight_spans_length lowheight_spans_nth clearance_lowheight)

text \<open>
  C6. On a well-formed heightfield the clearance pass sets the area of a span to the
  "not walkable" sentinel exactly when its clearance (the next span's \<open>smin\<close>, or the
  unbounded sentinel for the topmost span, minus its \<open>smax\<close>) is at most \<open>walkableHeight\<close>,
  and leaves the span as it is otherwise; so every span that is still walkable after the pass
  has a clearance greater than \<open>walkableHeight\<close>.
\<close>

theorem lowheight_exact:
  assumes "wf_heightfield solid" "i < length (spans solid)" "k < length (spans solid ! i)"
  shows "spans (rcFilterWalkableLowHeightSpans walkableHeight solid) ! i ! k =
           (if clearance (spans solid ! i) k \<le> walkableHeight
            then (spans solid ! i ! k)\<lparr>area := RC_NULL_AREA\<rparr> else spans solid ! i ! k) \<and>
         (area (spans (rcFilterWalkableLowHeightSpans walkableHeight solid) ! i ! k) \<noteq> RC_NULL_AREA \<longrightarrow>
            clearance (spans (rcFilterWalkableLowHeightSpans walkableHeight solid) ! i) k > walkableHeight)"
  using assms
  by (simp add: rcFilterWalkableLowHeightSpans_def Let_def column_pass_wf lowheight_spans_nth
      clearance_lowheight)

theorem lowheight_exact_witness:
  "wf_heightfield override_example \<and> 4 < length (spans override_example) \<and>
   0 < length (spans override_example ! 4) \<and>
   clearance (spans override_example ! 4) 0 = 2 \<and>
   spans (rcFilterWalkableLowHeightSpans 1 override_example) ! 4 ! 0 = span 0 1 1 \<and>
   area (spans (rcFilterWalkableLowHeightSpans 1 override_example) ! 4 ! 0) \<noteq> RC_NULL_AREA \<and>
   clearance (spans (rcFilterWalkableLowHeightSpans 1 override_example) ! 4) 0 > 1"
  using lowheight_exact[of override_example 4 0 1]
  by (simp add: override_example_def wf_heightfield_def clearance_def filter_defs)

text \<open>
  C7. The clearance pass is idempotent: for every heightfield and every \<open>walkableHeight\<close>,
  running it twice gives the same heightfield as running it once.
\<close>

theorem lowheight_idempotent:
  "rcFilterWalkableLowHeightSpans walkableHeight (rcFilterWalkableLowHeightSpans walkableHeight solid) =
   rcFilterWalkableLowHeightSpans walkableHeight solid"
  by (simp add: rcFilterWalkableLowHeightSpans_def Let_def column_pass_closed
      lowheight_spans_idem cong: if_cong)

section \<open>rcFilterLowHangingWalkableObstacles: one hop\<close>

lemma lowhang_spans_length: "length (lowhang_spans wc ps pw pa col) = length col"
  by (induction col arbitrary: ps pw pa) (simp_all add: Let_def)

lemma lowhang_spans_Suc:
  "Suc k < length col \<Longrightarrow>
   lowhang_spans wc ps pw pa col ! Suc k =
     (if lowhang_rescued wc col (Suc k) then (col ! Suc k)\<lparr>area := area (col ! k)\<rparr>
      else col ! Suc k)"
proof (induction col arbitrary: ps pw pa k)
  case Nil
  then show ?case by simp
next
  case (Cons s rest)
  then obtain r rest' where rest: "rest = r # rest'" by (cases rest) auto
  show ?case
  proof (cases k)
    case 0
    then show ?thesis
      by (auto simp: rest Let_def lowhang_rescued_def rcAbs_def abs_if)
  next
    case (Suc k')
    with Cons.prems have "Suc k' < length rest" by simp
    from Cons.IH[OF this] show ?thesis
      by (simp add: Suc Let_def lowhang_rescued_def)
  qed
qed

lemma lowhang_column_nth:
  "k < length col \<Longrightarrow>
   lowhang_column wc col ! k =
     (if lowhang_rescued wc col k then (col ! k)\<lparr>area := area (col ! (k - 1))\<rparr> else col ! k)"
proof (cases k)
  case 0
  assume "k < length col"
  with 0 show ?thesis by (cases col) (simp_all add: lowhang_column_def lowhang_rescued_def Let_def)
next
  case (Suc k')
  assume "k < length col"
  with Suc show ?thesis by (simp add: lowhang_column_def lowhang_spans_Suc)
qed

text \<open>
  C4. On a well-formed heightfield, the low-obstacle pass changes the area of a span exactly
  when the span is not walkable, its immediate predecessor in the column is walkable, and the
  tops of the two spans are at most \<open>walkableClimb\<close> apart (all read before the pass); the
  span then receives the predecessor's area. The first span of a column is unchanged, and a
  span is non-walkable after the pass only if it was so before: no span is made non-walkable.
\<close>

theorem lowhang_exact:
  assumes "wf_heightfield solid" "i < length (spans solid)" "k < length (spans solid ! i)"
  shows "spans (rcFilterLowHangingWalkableObstacles walkableClimb solid) ! i ! k =
           (if lowhang_rescued walkableClimb (spans solid ! i) k
            then (spans solid ! i ! k)\<lparr>area := area (spans solid ! i ! (k - 1))\<rparr>
            else spans solid ! i ! k) \<and>
         (area (spans (rcFilterLowHangingWalkableObstacles walkableClimb solid) ! i ! k)
            \<noteq> area (spans solid ! i ! k)
          \<longleftrightarrow> lowhang_rescued walkableClimb (spans solid ! i) k) \<and>
         spans (rcFilterLowHangingWalkableObstacles walkableClimb solid) ! i ! 0 = spans solid ! i ! 0 \<and>
         (area (spans (rcFilterLowHangingWalkableObstacles walkableClimb solid) ! i ! k) = RC_NULL_AREA
          \<longleftrightarrow> area (spans solid ! i ! k) = RC_NULL_AREA \<and>
              \<not> lowhang_rescued walkableClimb (spans solid ! i) k)"
proof -
  have 0: "0 < length (spans solid ! i)" using assms(3) by (cases "spans solid ! i") simp_all
  have r0: "\<not> lowhang_rescued walkableClimb (spans solid ! i) 0" by (simp add: lowhang_rescued_def)
  have n: "\<And>j. j < length (spans solid ! i) \<Longrightarrow>
      spans (rcFilterLowHangingWalkableObstacles walkableClimb solid) ! i ! j =
           (if lowhang_rescued walkableClimb (spans solid ! i) j
            then (spans solid ! i ! j)\<lparr>area := area (spans solid ! i ! (j - 1))\<rparr>
            else spans solid ! i ! j)"
    using assms(1,2) by (simp add: lowhang_wf lowhang_column_nth)
  have rescued: "lowhang_rescued walkableClimb (spans solid ! i) k \<Longrightarrow>
      area (spans solid ! i ! k) = RC_NULL_AREA \<and> area (spans solid ! i ! (k - 1)) \<noteq> RC_NULL_AREA"
    by (simp add: lowhang_rescued_def)
  show ?thesis
    using n[OF assms(3)] n[OF 0] r0 rescued by auto
qed

theorem lowhang_exact_witness:
  "wf_heightfield (single_hop_example 5) \<and> 0 < length (spans (single_hop_example 5)) \<and>
   1 < length (spans (single_hop_example 5) ! 0) \<and>
   lowhang_rescued 1 (spans (single_hop_example 5) ! 0) 1 \<and>
   spans (rcFilterLowHangingWalkableObstacles 1 (single_hop_example 5)) ! 0 ! 1 = span 0 1 5 \<and>
   spans (rcFilterLowHangingWalkableObstacles 1 (single_hop_example 5)) ! 0 ! 0 = span 0 0 5"
  using lowhang_exact[of "single_hop_example 5" 0 1 1]
  by (simp add: single_hop_example_def wf_heightfield_def lowhang_rescued_def span_def RC_NULL_AREA_def)

text \<open>
  C5. Propagation is single-hop. A non-walkable span whose predecessor is also non-walkable
  stays non-walkable, whatever lies below the two; and on the column
  [walkable, top 0] [non-walkable, top 1] [non-walkable, top 2], with a climb that covers
  both gaps, only the first non-walkable span becomes walkable.
\<close>

theorem lowhang_single_hop:
  assumes "wf_heightfield solid" "i < length (spans solid)" "k < length (spans solid ! i)" "0 < k"
    and "area (spans solid ! i ! (k - 1)) = RC_NULL_AREA"
    and "area (spans solid ! i ! k) = RC_NULL_AREA"
    and "1 \<le> climb" and "a \<noteq> RC_NULL_AREA"
  shows "area (spans (rcFilterLowHangingWalkableObstacles walkableClimb solid) ! i ! k) = RC_NULL_AREA \<and>
         rcFilterLowHangingWalkableObstacles climb (single_hop_example a) =
           \<lparr>width = 1, height = 1, spans = [[span 0 0 a, span 0 1 a, span 1 2 0]]\<rparr>"
proof
  show "area (spans (rcFilterLowHangingWalkableObstacles walkableClimb solid) ! i ! k) = RC_NULL_AREA"
    using assms by (simp add: lowhang_wf lowhang_column_nth lowhang_rescued_def)
  show "rcFilterLowHangingWalkableObstacles climb (single_hop_example a) =
           \<lparr>width = 1, height = 1, spans = [[span 0 0 a, span 0 1 a, span 1 2 0]]\<rparr>"
    using assms(7,8) by (simp add: single_hop_example_def filter_defs)
qed

theorem lowhang_single_hop_witness:
  "wf_heightfield (single_hop_example 5) \<and>
   area (spans (single_hop_example 5) ! 0 ! 1) = RC_NULL_AREA \<and>
   area (spans (single_hop_example 5) ! 0 ! 2) = RC_NULL_AREA \<and>
   area (spans (rcFilterLowHangingWalkableObstacles 7 (single_hop_example 5)) ! 0 ! 2) = RC_NULL_AREA \<and>
   rcFilterLowHangingWalkableObstacles 7 (single_hop_example 5) =
     \<lparr>width = 1, height = 1, spans = [[span 0 0 5, span 0 1 5, span 1 2 0]]\<rparr>"
  using lowhang_single_hop[of "single_hop_example 5" 0 2 7 5 7]
  by (simp add: single_hop_example_def wf_heightfield_def span_def RC_NULL_AREA_def)

section \<open>rcFilterLedgeSpans: the scan reads heights only\<close>

lemma scan_rest_geometry:
  "map (\<lambda>s. (smin s, smax s)) col = map (\<lambda>s. (smin s, smax s)) col' \<Longrightarrow>
   scan_rest wh wc sbot stop col st = scan_rest wh wc sbot stop col' st"
proof (induction col arbitrary: col' st)
  case Nil
  then show ?case by simp
next
  case (Cons ns rest)
  then obtain ns' rest' where c: "col' = ns' # rest'" by (cases col') auto
  with Cons.prems have h: "smin ns = smin ns'" "smax ns = smax ns'"
    and r: "map (\<lambda>s. (smin s, smax s)) rest = map (\<lambda>s. (smin s, smax s)) rest'" by simp_all
  have t: "(case rest of [] \<Rightarrow> MAX_HEIGHT | n # _ \<Rightarrow> int (smin n)) =
           (case rest' of [] \<Rightarrow> MAX_HEIGHT | n # _ \<Rightarrow> int (smin n))"
    using r by (cases rest; cases rest') simp_all
  obtain minh asmin asmax where st: "st = (minh, asmin, asmax)" by (cases st) auto
  show ?case
    unfolding c st scan_rest.simps h t Let_def
    by (simp add: Cons.IH[OF r])
qed

lemma column_at_geometry:
  assumes "geometry solid = geometry solid'"
  shows "map (\<lambda>s. (smin s, smax s)) (column_at solid j) = map (\<lambda>s. (smin s, smax s)) (column_at solid' j)"
proof -
  let ?g = "\<lambda>s. (smin s, smax s)"
  from assms have e: "map (map ?g) (spans solid) = map (map ?g) (spans solid')"
    by (simp add: geometry_def)
  then have l: "length (spans solid) = length (spans solid')" by (rule map_eq_imp_length_eq)
  show ?thesis
  proof (cases "j < length (spans solid)")
    case True
    then have "map ?g (spans solid ! j) = map (map ?g) (spans solid) ! j" by simp
    also have "\<dots> = map (map ?g) (spans solid') ! j" by (simp only: e)
    also have "\<dots> = map ?g (spans solid' ! j)" using True l by simp
    finally show ?thesis using True l by (simp add: column_at_def)
  next
    case False
    then show ?thesis using l by (simp add: column_at_def)
  qed
qed

lemma scan_dir_geometry:
  assumes "geometry solid = geometry solid'"
  shows "scan_dir wh wc w h solid x y sbot stop dir st = scan_dir wh wc w h solid' x y sbot stop dir st"
proof -
  let ?j = "column_index w (x + rcGetDirOffsetX dir) (y + rcGetDirOffsetY dir)"
  have m: "map (\<lambda>s. (smin s, smax s)) (column_at solid ?j) = map (\<lambda>s. (smin s, smax s)) (column_at solid' ?j)"
    by (rule column_at_geometry[OF assms])
  have t: "(case column_at solid ?j of [] \<Rightarrow> MAX_HEIGHT | n # _ \<Rightarrow> int (smin n)) =
           (case column_at solid' ?j of [] \<Rightarrow> MAX_HEIGHT | n # _ \<Rightarrow> int (smin n))"
    using m by (cases "column_at solid ?j"; cases "column_at solid' ?j") simp_all
  show ?thesis
    unfolding scan_dir_def Let_def t scan_rest_geometry[OF m] ..
qed

lemma ledge_scan_geometry:
  "geometry solid = geometry solid' \<Longrightarrow>
   ledge_scan wh wc w h solid x y sbot stop = ledge_scan wh wc w h solid' x y sbot stop"
proof -
  assume g: "geometry solid = geometry solid'"
  have "scan_dir wh wc w h solid x y sbot stop = scan_dir wh wc w h solid' x y sbot stop"
    by (intro ext scan_dir_geometry[OF g])
  then show ?thesis by (simp only: ledge_scan_def)
qed

lemma ledge_decision_geometry:
  assumes "geometry solid = geometry solid'" "k < length (column_at solid (column_index w x y))"
  shows "ledge_decision wh wc w h solid x y k = ledge_decision wh wc w h solid' x y k"
proof -
  let ?i = "column_index w x y"
  have m: "map (\<lambda>s. (smin s, smax s)) (column_at solid ?i) = map (\<lambda>s. (smin s, smax s)) (column_at solid' ?i)"
    by (rule column_at_geometry[OF assms(1)])
  then have l: "length (column_at solid ?i) = length (column_at solid' ?i)" by (rule map_eq_imp_length_eq)
  have n: "smin (column_at solid ?i ! j) = smin (column_at solid' ?i ! j) \<and>
     smax (column_at solid ?i ! j) = smax (column_at solid' ?i ! j)"
    if j: "j < length (column_at solid ?i)" for j
  proof -
    have "(\<lambda>s. (smin s, smax s)) (column_at solid ?i ! j) = map (\<lambda>s. (smin s, smax s)) (column_at solid ?i) ! j"
      using j by simp
    also have "\<dots> = map (\<lambda>s. (smin s, smax s)) (column_at solid' ?i) ! j" by (simp only: m)
    also have "\<dots> = (\<lambda>s. (smin s, smax s)) (column_at solid' ?i ! j)" using j l by simp
    finally show ?thesis by simp
  qed
  have a: "smax (column_at solid ?i ! k) = smax (column_at solid' ?i ! k)" using n[OF assms(2)] by simp
  have b: "(if Suc k < length (column_at solid ?i) then int (smin (column_at solid ?i ! Suc k)) else MAX_HEIGHT) =
           (if Suc k < length (column_at solid' ?i) then int (smin (column_at solid' ?i ! Suc k)) else MAX_HEIGHT)"
    using n[of "Suc k"] l by simp
  show ?thesis
    unfolding ledge_decision_def Let_def ledge_scan_geometry[OF assms(1)] a b ..
qed

section \<open>rcFilterLedgeSpans: the in-place pass against the snapshot\<close>

lemma ledge_inv_init: "ledge_inv solid0 {} solid0"
  by (simp add: ledge_inv_def)

lemma ledge_inv_unique:
  assumes "ledge_inv solid0 M s" "ledge_inv solid0 M s'"
  shows "s = s'"
proof -
  have "spans s = spans s'"
  proof (rule nth_equalityI)
    show "length (spans s) = length (spans s')" using assms by (simp add: ledge_inv_def)
    fix i assume "i < length (spans s)"
    then have i: "i < length (spans solid0)" using assms by (simp add: ledge_inv_def)
    show "spans s ! i = spans s' ! i"
      using assms i by (intro nth_equalityI) (simp_all add: ledge_inv_def)
  qed
  moreover have "width s = width s'" "height s = height s'" using assms by (simp_all add: ledge_inv_def)
  ultimately show ?thesis by simp
qed

lemma ledge_inv_geometry:
  assumes "ledge_inv solid0 M solid"
  shows "geometry solid = geometry solid0"
proof -
  let ?g = "\<lambda>s. (smin s, smax s)"
  have "map (map ?g) (spans solid) = map (map ?g) (spans solid0)"
  proof (rule nth_equalityI)
    show "length (map (map ?g) (spans solid)) = length (map (map ?g) (spans solid0))"
      using assms by (simp add: ledge_inv_def)
    fix i assume "i < length (map (map ?g) (spans solid))"
    then have i: "i < length (spans solid0)" "i < length (spans solid)"
      using assms by (simp_all add: ledge_inv_def)
    have l: "length (spans solid ! i) = length (spans solid0 ! i)"
      using assms i by (simp add: ledge_inv_def)
    have "\<And>k. k < length (spans solid0 ! i) \<Longrightarrow> ?g (spans solid ! i ! k) = ?g (spans solid0 ! i ! k)"
      using assms i by (simp add: ledge_inv_def)
    with l have "map ?g (spans solid ! i) = map ?g (spans solid0 ! i)"
      by (intro nth_equalityI) simp_all
    with i show "map (map ?g) (spans solid) ! i = map (map ?g) (spans solid0) ! i" by simp
  qed
  with assms show ?thesis by (simp add: geometry_def ledge_inv_def)
qed

lemma ledge_span_alt:
  "ledge_span wh wc w h x y k solid =
     (if area (column_at solid (column_index w x y) ! k) \<noteq> RC_NULL_AREA \<and>
         ledge_decision wh wc w h solid x y k
      then set_area solid (column_index w x y) k RC_NULL_AREA else solid)"
  by (simp add: ledge_span_def ledge_decision_def Let_def split: prod.splits)


lemma ledge_span_inv:
  assumes inv: "ledge_inv solid0 M solid"
    and i: "i = column_index (width solid0) x y"
    and k: "k < length (column_at solid0 i)"
  shows "ledge_inv solid0
           (if ledge_decision wh wc (width solid0) (height solid0) solid0 x y k
            then insert (i, k) M else M)
           (ledge_span wh wc (width solid0) (height solid0) x y k solid)"
proof -
  let ?D = "ledge_decision wh wc (width solid0) (height solid0) solid0 x y k"
  have il: "i < length (spans solid0)" using k by (auto simp: column_at_def split: if_splits)
  then have c0: "column_at solid0 i = spans solid0 ! i" by (simp add: column_at_def)
  have il': "i < length (spans solid)" using il inv by (simp add: ledge_inv_def)
  then have c: "column_at solid i = spans solid ! i" by (simp add: column_at_def)
  have len: "length (spans solid ! i) = length (spans solid0 ! i)"
    using inv il by (simp add: ledge_inv_def)
  have kl: "k < length (spans solid0 ! i)" using k c0 by simp
  have cur: "spans solid ! i ! k =
      (if area (spans solid0 ! i ! k) \<noteq> RC_NULL_AREA \<and> (i, k) \<in> M
       then (spans solid0 ! i ! k)\<lparr>area := RC_NULL_AREA\<rparr> else spans solid0 ! i ! k)"
    using inv il kl by (simp add: ledge_inv_def)
  have D: "ledge_decision wh wc (width solid0) (height solid0) solid x y k = ?D"
    by (rule ledge_decision_geometry[OF ledge_inv_geometry[OF inv]]) (use c len kl i in simp)
  show ?thesis
  proof (cases "area (spans solid ! i ! k) \<noteq> RC_NULL_AREA \<and> ?D")
    case True
    then have s0: "spans solid ! i ! k = spans solid0 ! i ! k" "area (spans solid0 ! i ! k) \<noteq> RC_NULL_AREA"
      using cur by (auto split: if_splits)
    have res: "ledge_span wh wc (width solid0) (height solid0) x y k solid = set_area solid i k RC_NULL_AREA"
      using True D c i by (simp add: ledge_span_alt)
    have "ledge_inv solid0 (insert (i, k) M) (set_area solid i k RC_NULL_AREA)"
      unfolding ledge_inv_def
    proof (intro conjI allI impI)
      show "width (set_area solid i k RC_NULL_AREA) = width solid0"
        "height (set_area solid i k RC_NULL_AREA) = height solid0"
        "length (spans (set_area solid i k RC_NULL_AREA)) = length (spans solid0)"
        using inv by (simp_all add: ledge_inv_def set_area_def)
    next
      fix i' assume i': "i' < length (spans solid0)"
      show "length (spans (set_area solid i k RC_NULL_AREA) ! i') = length (spans solid0 ! i')"
        using inv i' il' c by (simp add: ledge_inv_def set_area_def nth_list_update)
      fix k' assume k': "k' < length (spans solid0 ! i')"
      have old: "spans solid ! i' ! k' =
        (if area (spans solid0 ! i' ! k') \<noteq> RC_NULL_AREA \<and> (i', k') \<in> M
         then (spans solid0 ! i' ! k')\<lparr>area := RC_NULL_AREA\<rparr> else spans solid0 ! i' ! k')"
        using inv i' k' by (simp add: ledge_inv_def)
      show "spans (set_area solid i k RC_NULL_AREA) ! i' ! k' =
        (if area (spans solid0 ! i' ! k') \<noteq> RC_NULL_AREA \<and> (i', k') \<in> insert (i, k) M
         then (spans solid0 ! i' ! k')\<lparr>area := RC_NULL_AREA\<rparr> else spans solid0 ! i' ! k')"
      proof (cases "i' = i \<and> k' = k")
        case True
        then show ?thesis
          using s0 il' len kl c by (simp add: set_area_def)
      next
        case False
        then have "spans (set_area solid i k RC_NULL_AREA) ! i' ! k' = spans solid ! i' ! k'"
          using il' c by (auto simp: set_area_def nth_list_update)
        with old False show ?thesis by auto
      qed
    qed
    with True res show ?thesis by simp
  next
    case False
    then have res: "ledge_span wh wc (width solid0) (height solid0) x y k solid = solid"
      using D c i by (auto simp: ledge_span_alt)
    show ?thesis
    proof (cases ?D)
      case d: True
      with False have a: "area (spans solid ! i ! k) = RC_NULL_AREA" by simp
      have "ledge_inv solid0 (insert (i, k) M) solid"
        unfolding ledge_inv_def
      proof (intro conjI allI impI)
        show "width solid = width solid0" "height solid = height solid0"
          "length (spans solid) = length (spans solid0)"
          using inv by (simp_all add: ledge_inv_def)
      next
        fix i' assume i': "i' < length (spans solid0)"
        show "length (spans solid ! i') = length (spans solid0 ! i')"
          using inv i' by (simp add: ledge_inv_def)
        fix k' assume k': "k' < length (spans solid0 ! i')"
        have old: "spans solid ! i' ! k' =
          (if area (spans solid0 ! i' ! k') \<noteq> RC_NULL_AREA \<and> (i', k') \<in> M
           then (spans solid0 ! i' ! k')\<lparr>area := RC_NULL_AREA\<rparr> else spans solid0 ! i' ! k')"
          using inv i' k' by (simp add: ledge_inv_def)
        show "spans solid ! i' ! k' =
          (if area (spans solid0 ! i' ! k') \<noteq> RC_NULL_AREA \<and> (i', k') \<in> insert (i, k) M
           then (spans solid0 ! i' ! k')\<lparr>area := RC_NULL_AREA\<rparr> else spans solid0 ! i' ! k')"
        proof (cases "i' = i \<and> k' = k")
          case True
          with a cur show ?thesis by (auto split: if_splits)
        next
          case False
          with old show ?thesis by auto
        qed
      qed
      with d res show ?thesis by simp
    next
      case d: False
      with res inv show ?thesis by simp
    qed
  qed
qed

lemma ledge_spans_inv:
  assumes "ledge_inv solid0 M solid" "i = column_index (width solid0) x y"
    and "\<forall>k \<in> set ks. k < length (column_at solid0 i)"
  shows "ledge_inv solid0
           (M \<union> {(i, k) | k. k \<in> set ks \<and>
                     ledge_decision wh wc (width solid0) (height solid0) solid0 x y k})
           (fold (ledge_span wh wc (width solid0) (height solid0) x y) ks solid)"
  using assms
proof (induction ks arbitrary: M solid)
  case Nil
  then show ?case by simp
next
  case (Cons k ks)
  let ?D = "\<lambda>k. ledge_decision wh wc (width solid0) (height solid0) solid0 x y k"
  let ?M = "if ?D k then insert (i, k) M else M"
  have step: "ledge_inv solid0 ?M (ledge_span wh wc (width solid0) (height solid0) x y k solid)"
    using Cons.prems by (intro ledge_span_inv) simp_all
  have "ledge_inv solid0 (?M \<union> {(i, k') | k'. k' \<in> set ks \<and> ?D k'})
          (fold (ledge_span wh wc (width solid0) (height solid0) x y) ks
             (ledge_span wh wc (width solid0) (height solid0) x y k solid))"
    using Cons.prems by (intro Cons.IH[OF step]) simp_all
  moreover have "?M \<union> {(i, k') | k'. k' \<in> set ks \<and> ?D k'} =
                 M \<union> {(i, k') | k'. k' \<in> set (k # ks) \<and> ?D k'}"
    by auto
  ultimately show ?case by simp
qed

lemma ledge_column_inv:
  assumes "ledge_inv solid0 M solid"
  shows "ledge_inv solid0 (M \<union> ledge_marks wh wc solid0 {(y, x)})
           (ledge_column wh wc (width solid0) (height solid0) x y solid)"
proof -
  let ?i = "column_index (width solid0) x y"
  have m: "map (\<lambda>s. (smin s, smax s)) (column_at solid ?i) = map (\<lambda>s. (smin s, smax s)) (column_at solid0 ?i)"
    by (rule column_at_geometry[OF ledge_inv_geometry[OF assms]])
  then have l: "length (column_at solid ?i) = length (column_at solid0 ?i)" by (rule map_eq_imp_length_eq)
  have "ledge_inv solid0
           (M \<union> {(?i, k) | k. k \<in> set [0..<length (column_at solid ?i)] \<and>
                     ledge_decision wh wc (width solid0) (height solid0) solid0 x y k})
           (fold (ledge_span wh wc (width solid0) (height solid0) x y) [0..<length (column_at solid ?i)] solid)"
    using assms l by (intro ledge_spans_inv) simp_all
  moreover have "{(?i, k) | k. k \<in> set [0..<length (column_at solid ?i)] \<and>
                     ledge_decision wh wc (width solid0) (height solid0) solid0 x y k} =
                 ledge_marks wh wc solid0 {(y, x)}"
    using l by (auto simp: ledge_marks_def)
  ultimately show ?thesis by (simp add: ledge_column_def)
qed

lemma ledge_marks_insert:
  "ledge_marks wh wc solid0 (insert c S) = ledge_marks wh wc solid0 {c} \<union> ledge_marks wh wc solid0 S"
  by (auto simp: ledge_marks_def)

lemma ledge_cells_inv:
  assumes "ledge_inv solid0 M solid"
  shows "ledge_inv solid0 (M \<union> ledge_marks wh wc solid0 (set cs))
           (fold (\<lambda>(y, x). ledge_column wh wc (width solid0) (height solid0) x y) cs solid)"
  using assms
proof (induction cs arbitrary: M solid)
  case Nil
  then show ?case by (simp add: ledge_marks_def)
next
  case (Cons c cs)
  obtain y x where c: "c = (y, x)" by (cases c)
  have "ledge_inv solid0 ((M \<union> ledge_marks wh wc solid0 {(y, x)}) \<union> ledge_marks wh wc solid0 (set cs))
          (fold (\<lambda>(y, x). ledge_column wh wc (width solid0) (height solid0) x y) cs
             (ledge_column wh wc (width solid0) (height solid0) x y solid))"
    by (intro Cons.IH ledge_column_inv Cons.prems)
  moreover have "(M \<union> ledge_marks wh wc solid0 {(y, x)}) \<union> ledge_marks wh wc solid0 (set cs) =
                 M \<union> ledge_marks wh wc solid0 (set (c # cs))"
    using ledge_marks_insert[of wh wc solid0 c "set cs"] c by auto
  ultimately show ?case by (simp add: c)
qed

lemma ledge_pass_in_order_inv:
  "ledge_inv solid (ledge_marks wh wc solid (set order)) (ledge_pass_in_order wh wc order solid)"
  using ledge_cells_inv[OF ledge_inv_init, of solid wh wc order]
  by (simp add: ledge_pass_in_order_def)

lemma rcFilterLedgeSpans_in_order:
  "rcFilterLedgeSpans wh wc solid =
   ledge_pass_in_order wh wc (List.product [0..height solid - 1] [0..width solid - 1]) solid"
  by (simp add: rcFilterLedgeSpans_def ledge_pass_in_order_def Let_def fold_product)

lemma ledge_pointwise:
  assumes "0 \<le> x" "x < width solid" "0 \<le> y" "y < height solid"
    and "k < length (column_at solid (column_index (width solid) x y))"
  shows "column_at (rcFilterLedgeSpans wh wc solid) (column_index (width solid) x y) ! k =
         ledge_snapshot_span wh wc solid x y k"
proof -
  let ?i = "column_index (width solid) x y"
  let ?cells = "set (List.product [0..height solid - 1] [0..width solid - 1])"
  let ?M = "ledge_marks wh wc solid ?cells"
  have inv: "ledge_inv solid ?M (rcFilterLedgeSpans wh wc solid)"
    by (simp only: rcFilterLedgeSpans_in_order ledge_pass_in_order_inv)
  have il: "?i < length (spans solid)" using assms(5) by (auto simp: column_at_def split: if_splits)
  then have c0: "column_at solid ?i = spans solid ! ?i" by (simp add: column_at_def)
  have c: "column_at (rcFilterLedgeSpans wh wc solid) ?i = spans (rcFilterLedgeSpans wh wc solid) ! ?i"
    using inv il by (simp add: column_at_def ledge_inv_def)
  have mem: "(?i, k) \<in> ?M \<longleftrightarrow> ledge_decision wh wc (width solid) (height solid) solid x y k"
  proof
    assume "(?i, k) \<in> ?M"
    then obtain x' y' where xy: "column_index (width solid) x' y' = ?i" "0 \<le> x'" "x' < width solid"
        "0 \<le> y'" "y' < height solid"
      and d: "ledge_decision wh wc (width solid) (height solid) solid x' y' k"
      by (auto simp: ledge_marks_def)
    from column_index_inj[OF xy(2,3) assms(1,2) xy(4) assms(3) xy(1)] d
    show "ledge_decision wh wc (width solid) (height solid) solid x y k" by simp
  next
    assume "ledge_decision wh wc (width solid) (height solid) solid x y k"
    then show "(?i, k) \<in> ?M" using assms by (auto simp: ledge_marks_def)
  qed
  show ?thesis
    using inv il assms(5) c0 c mem
    by (simp add: ledge_inv_def ledge_snapshot_span_def Let_def)
qed

lemma ledge_order_independent:
  assumes "set order = set (List.product [0..height solid - 1] [0..width solid - 1])"
  shows "ledge_pass_in_order wh wc order solid = rcFilterLedgeSpans wh wc solid"
proof -
  have "ledge_inv solid (ledge_marks wh wc solid (set order)) (ledge_pass_in_order wh wc order solid)"
    by (rule ledge_pass_in_order_inv)
  moreover have "ledge_inv solid (ledge_marks wh wc solid (set order)) (rcFilterLedgeSpans wh wc solid)"
    unfolding assms rcFilterLedgeSpans_in_order by (rule ledge_pass_in_order_inv)
  ultimately show ?thesis by (rule ledge_inv_unique)
qed

text \<open>
  C10. The scan of the ledge pass reads \<open>smin\<close> and \<open>smax\<close> only: on two heightfields with the
  same structure it gives the same \<open>(minh, asmin, asmax)\<close>. Hence the pass, which runs in place,
  leaves every span of every cell of the grid as the decision computed from the heightfield
  before the pass says, and visiting the columns in any order (any list of cells \<open>(y, x)\<close>
  that covers the grid) ends in the same heightfield as the row-major order of the source.
\<close>

theorem ledge_in_place_is_snapshot:
  assumes "0 \<le> x" "x < width solid" "0 \<le> y" "y < height solid"
    and "k < length (column_at solid (column_index (width solid) x y))"
    and "set order = set (List.product [0..height solid - 1] [0..width solid - 1])"
    and "geometry solid' = geometry solid"
  shows "column_at (rcFilterLedgeSpans walkableHeight walkableClimb solid)
           (column_index (width solid) x y) ! k =
         ledge_snapshot_span walkableHeight walkableClimb solid x y k \<and>
         ledge_pass_in_order walkableHeight walkableClimb order solid =
         rcFilterLedgeSpans walkableHeight walkableClimb solid \<and>
         ledge_scan walkableHeight walkableClimb w h solid' x y sbot stop =
         ledge_scan walkableHeight walkableClimb w h solid x y sbot stop"
  using ledge_pointwise[OF assms(1-5)] ledge_order_independent[OF assms(6)]
    ledge_scan_geometry[OF assms(7)]
  by simp

theorem ledge_in_place_is_snapshot_witness:
  "set [(0, 2), (0, 0), (0, 1), (0::int, 2::int)] =
     set (List.product [0..height ledge_virtual_example - 1] [0..width ledge_virtual_example - 1]) \<and>
   geometry (set_area ledge_virtual_example 1 0 7) = geometry ledge_virtual_example \<and>
   column_at (rcFilterLedgeSpans 1 1 ledge_virtual_example)
     (column_index (width ledge_virtual_example) 1 0) ! 0 =
     ledge_snapshot_span 1 1 ledge_virtual_example 1 0 0 \<and>
   ledge_pass_in_order 1 1 [(0, 2), (0, 0), (0, 1), (0, 2)] ledge_virtual_example =
     rcFilterLedgeSpans 1 1 ledge_virtual_example \<and>
   ledge_scan 1 1 3 1 (set_area ledge_virtual_example 1 0 7) 1 0 0 MAX_HEIGHT =
     ledge_scan 1 1 3 1 ledge_virtual_example 1 0 0 MAX_HEIGHT"
proof -
  have x: "(0::int) \<le> 1" "1 < width ledge_virtual_example"
    and y: "(0::int) \<le> 0" "0 < height ledge_virtual_example"
    and k: "0 < length (column_at ledge_virtual_example (column_index (width ledge_virtual_example) 1 0))"
    by (simp_all add: ledge_virtual_example_def column_at_def column_index_def)
  have o: "set [(0, 2), (0, 0), (0, 1), (0::int, 2::int)] =
     set (List.product [0..height ledge_virtual_example - 1] [0..width ledge_virtual_example - 1])"
    by (auto simp: ledge_virtual_example_def upto.simps)
  have g: "geometry (set_area ledge_virtual_example 1 0 7) = geometry ledge_virtual_example"
    by (rule geometry_set_area)
  from ledge_in_place_is_snapshot[OF x y k o g, of 1 1 3 1 0 MAX_HEIGHT] o g show ?thesis by simp
qed

section \<open>rcFilterLedgeSpans: 32-bit arithmetic in range\<close>

lemma rcMin_min: "rcMin a b = min a b" by (simp add: rcMin_def min_def)
lemma rcMax_max: "rcMax a b = max a b" by (simp add: rcMax_def max_def)
lemma rcAbs_abs: "rcAbs a = \<bar>a\<bar>" by (simp add: rcAbs_def abs_if)

lemma int_wrap_id: "- 2147483648 \<le> v \<Longrightarrow> v < 2147483648 \<Longrightarrow> int_wrap v = v"
  by (simp add: int_wrap_def)

lemma int_neg_climb: "walkableClimb_in_range wc \<Longrightarrow> int_neg wc = - wc"
  by (simp add: int_neg_def int_wrap_id walkableClimb_in_range_def INT_MAX_def MAX_HEIGHT_def)

lemma int_sub_drop:
  "walkableClimb_in_range wc \<Longrightarrow> 0 \<le> sbot \<Longrightarrow> sbot \<le> MAX_HEIGHT \<Longrightarrow>
   int_sub (- wc) sbot = - wc - sbot"
  by (simp add: int_sub_def int_wrap_id walkableClimb_in_range_def INT_MAX_def MAX_HEIGHT_def)

lemma int_sub_overlap:
  assumes "walkableClimb_in_range wc" "0 \<le> sbot" "sbot \<le> MAX_HEIGHT" "0 \<le> stop" "stop \<le> MAX_HEIGHT"
    "0 \<le> ntop" "ntop \<le> MAX_HEIGHT"
  shows "int_sub (min stop ntop) (max sbot (- wc)) = min stop ntop - max sbot (- wc)"
proof -
  have "- 2147483648 \<le> min stop ntop - max sbot (- wc)" "min stop ntop - max sbot (- wc) < 2147483648"
    using assms by (auto simp: walkableClimb_in_range_def INT_MAX_def MAX_HEIGHT_def min_def max_def)
  then show ?thesis by (simp add: int_sub_def int_wrap_id)
qed

lemma heights_bounded_column:
  assumes "heights_bounded solid" "s \<in> set (column_at solid j)"
  shows "int (smin s) \<le> MAX_HEIGHT \<and> int (smax s) \<le> MAX_HEIGHT"
proof -
  from assms(2) have "j < length (spans solid)" "s \<in> set (spans solid ! j)"
    by (auto simp: column_at_def split: if_splits)
  then show ?thesis using assms(1) by (auto simp: heights_bounded_def)
qed

section \<open>rcFilterLedgeSpans: the rule\<close>

lemma scan_rest_spec:
  "scan_rest wh wc sbot stop col (minh, asmin, asmax) =
     (fold min (map (\<lambda>c. fst c - sbot) (filter (sufficient_overlap wh sbot stop) (real_candidates col))) minh,
      fold min (map fst (filter (\<lambda>c. sufficient_overlap wh sbot stop c \<and> accessible wc sbot c)
                           (real_candidates col))) asmin,
      fold max (map fst (filter (\<lambda>c. sufficient_overlap wh sbot stop c \<and> accessible wc sbot c)
                           (real_candidates col))) asmax)"
proof (induction col arbitrary: minh asmin asmax)
  case Nil
  then show ?case by simp
next
  case (Cons ns rest)
  have a: "(if int (smax ns) < asmin then int (smax ns) else asmin) = min (int (smax ns)) asmin"
          "(if int (smax ns) > asmax then int (smax ns) else asmax) = max (int (smax ns)) asmax"
    for asmin asmax by (simp_all add: min_def max_def)
  show ?case
    by (simp add: Cons.IH Let_def rcMin_min rcMax_max rcAbs_abs a sufficient_overlap_def
        accessible_def min.commute)
qed

lemma scan_dir_spec:
  assumes "walkableClimb_in_range wc" "heights_bounded solid"
    and "0 \<le> sbot" "sbot \<le> MAX_HEIGHT" "0 \<le> stop" "stop \<le> MAX_HEIGHT"
  shows "scan_dir wh wc w h solid x y sbot stop dir (minh, asmin, asmax) =
     (fold min (drop_values wh wc w h solid x y sbot stop dir) minh,
      fold min (accessible_heights False wh wc w h solid x y sbot stop dir) asmin,
      fold max (accessible_heights False wh wc w h solid x y sbot stop dir) asmax)"
proof -
  let ?col = "neighbour_column w solid x y dir"
  let ?ntop = "case ?col of [] \<Rightarrow> MAX_HEIGHT | n # _ \<Rightarrow> int (smin n)"
  have nt: "0 \<le> ?ntop" "?ntop \<le> MAX_HEIGHT"
    using heights_bounded_column[OF assms(2), of _ "column_index w (x + rcGetDirOffsetX dir) (y + rcGetDirOffsetY dir)"]
    by (auto simp: neighbour_column_def MAX_HEIGHT_def split: list.splits)
  have o: "int_sub (min stop ?ntop) (max sbot (- wc)) = min stop ?ntop - max sbot (- wc)"
    by (rule int_sub_overlap[OF assms(1,3-6) nt])
  show ?thesis
    using o
    by (simp add: scan_dir_def Let_def scan_rest_spec drop_values_def accessible_heights_def
      neighbour_outside_def neighbour_column_def virtual_candidate_def sufficient_overlap_def
      rcMin_min rcMax_max min.commute int_neg_climb[OF assms(1)] int_sub_drop[OF assms(1,3,4)])
qed

lemma fold_scan_dir_spec:
  assumes "walkableClimb_in_range wc" "heights_bounded solid"
    and "0 \<le> sbot" "sbot \<le> MAX_HEIGHT" "0 \<le> stop" "stop \<le> MAX_HEIGHT"
  shows "fold (scan_dir wh wc w h solid x y sbot stop) ds (minh, asmin, asmax) =
     (fold min (concat (map (drop_values wh wc w h solid x y sbot stop) ds)) minh,
      fold min (concat (map (accessible_heights False wh wc w h solid x y sbot stop) ds)) asmin,
      fold max (concat (map (accessible_heights False wh wc w h solid x y sbot stop) ds)) asmax)"
  by (induction ds arbitrary: minh asmin asmax) (simp_all add: scan_dir_spec[OF assms])

lemma ledge_scan_spec:
  assumes "walkableClimb_in_range wc" "heights_bounded solid"
    and "0 \<le> sbot" "sbot \<le> MAX_HEIGHT" "0 \<le> stop" "stop \<le> MAX_HEIGHT"
  shows "ledge_scan wh wc w h solid x y sbot stop =
     (Min (set (MAX_HEIGHT # concat (map (drop_values wh wc w h solid x y sbot stop) [0..<4]))),
      Min (set (sbot # concat (map (accessible_heights False wh wc w h solid x y sbot stop) [0..<4]))),
      Max (set (sbot # concat (map (accessible_heights False wh wc w h solid x y sbot stop) [0..<4]))))"
  unfolding ledge_scan_def fold_scan_dir_spec[OF assms] Min.set_eq_fold Max.set_eq_fold ..

lemma span_heights_in_range:
  assumes "heights_bounded solid" "k < length (column_at solid i)"
  shows "0 \<le> int (smax (column_at solid i ! k))" "int (smax (column_at solid i ! k)) \<le> MAX_HEIGHT"
    "0 \<le> (if Suc k < length (column_at solid i) then int (smin (column_at solid i ! Suc k)) else MAX_HEIGHT)"
    "(if Suc k < length (column_at solid i) then int (smin (column_at solid i ! Suc k)) else MAX_HEIGHT) \<le> MAX_HEIGHT"
  using heights_bounded_column[OF assms(1), of "column_at solid i ! k" i]
    heights_bounded_column[OF assms(1), of "column_at solid i ! Suc k" i] assms(2)
  by (auto simp: MAX_HEIGHT_def)

lemma ledge_decision_rule:
  assumes "walkableClimb_in_range wc" "heights_bounded solid"
    and "k < length (column_at solid (column_index (width solid) x y))"
  shows "ledge_decision wh wc (width solid) (height solid) solid x y k = ledge_rule False wh wc solid x y k"
  unfolding ledge_decision_def ledge_rule_def Let_def
    ledge_scan_spec[OF assms(1,2) span_heights_in_range[OF assms(2,3)]]
    int_neg_climb[OF assms(1)]
  by simp

lemma accessible_heights_virtual:
  assumes "0 \<le> wc" "0 < sbot"
  shows "accessible_heights True wh wc w h solid x y sbot stop dir =
         accessible_heights False wh wc w h solid x y sbot stop dir"
  using assms by (simp add: accessible_heights_def accessible_def virtual_candidate_def)

lemma ledge_rule_virtual_irrelevant:
  assumes "0 \<le> wc" "0 < smax (column_at solid (column_index (width solid) x y) ! k)"
  shows "ledge_rule True wh wc solid x y k = ledge_rule False wh wc solid x y k"
  using assms by (simp add: ledge_rule_def Let_def accessible_heights_virtual)

text \<open>
  C1, as the claim states it, fails: on \<open>ledge_virtual_example\<close> with \<open>walkableHeight = 1\<close>
  and \<open>walkableClimb = 1\<close>, the walkable span of the middle column has \<open>bot = 0\<close>; the
  virtual span of the empty column has \<open>nbot = -1\<close> and enough overlap, so the rule with the
  virtual span among the accessible candidates gives \<open>asmin = -1\<close>, \<open>asmax = 1\<close> and marks
  the span, while the pass leaves it walkable.
\<close>

theorem ledge_claimed_rule_counterexample:
  "area (column_at ledge_virtual_example (column_index 3 1 0) ! 0) \<noteq> RC_NULL_AREA \<and>
   heights_bounded ledge_virtual_example \<and> walkableClimb_in_range 1 \<and>
   ledge_rule True 1 1 ledge_virtual_example 1 0 0 \<and>
   area (column_at (rcFilterLedgeSpans 1 1 ledge_virtual_example) (column_index 3 1 0) ! 0)
     \<noteq> RC_NULL_AREA"
  by code_simp

text \<open>
  C1, amended. For every heightfield with bounded heights, every \<open>walkableClimb\<close> in range
  (so that no operation of the scan overflows) and every span of a cell of the grid that is
  walkable when the pass examines it, the pass marks the span non-walkable if and only if
  \<open>minh < - walkableClimb\<close> or \<open>asmax - asmin > walkableClimb\<close>, where \<open>minh\<close> is the minimum
  of the sentinel and of the drops of all four directions (\<open>- walkableClimb - bot\<close> for a
  direction outside the grid; \<open>nbot - bot\<close> for the virtual span and every real span with
  overlap above \<open>walkableHeight\<close>) and \<open>asmin\<close>, \<open>asmax\<close> are the minimum and maximum of
  \<open>bot\<close> and of \<open>nbot\<close> over the real neighbour spans with such overlap and
  \<open>\<bar>nbot - bot\<bar> \<le> walkableClimb\<close>. The virtual span feeds \<open>minh\<close> only. (By
  \<open>ledge_rule_virtual_irrelevant\<close> the two readings differ only for \<open>bot = 0\<close>.)
\<close>

theorem ledge_span_marked_iff:
  assumes "0 \<le> x" "x < width solid" "0 \<le> y" "y < height solid"
    and "k < length (column_at solid (column_index (width solid) x y))"
    and "area (column_at solid (column_index (width solid) x y) ! k) \<noteq> RC_NULL_AREA"
    and "heights_bounded solid" "walkableClimb_in_range walkableClimb"
  shows "area (column_at (rcFilterLedgeSpans walkableHeight walkableClimb solid)
                 (column_index (width solid) x y) ! k) = RC_NULL_AREA
         \<longleftrightarrow> ledge_rule False walkableHeight walkableClimb solid x y k"
  using assms(6)
  by (simp add: ledge_pointwise[OF assms(1-5)] ledge_snapshot_span_def Let_def
      ledge_decision_rule[OF assms(8,7,5)])

theorem ledge_span_marked_iff_witness:
  "heights_bounded override_example \<and> walkableClimb_in_range 3 \<and>
   area (column_at override_example (column_index (width override_example) 1 1) ! 0) \<noteq> RC_NULL_AREA \<and>
   area (column_at (rcFilterLedgeSpans 1 3 override_example)
           (column_index (width override_example) 1 1) ! 0) = RC_NULL_AREA \<and>
   ledge_rule False 1 3 override_example 1 1 0"
proof -
  have x: "(0::int) \<le> 1" "1 < width override_example"
    and y: "(0::int) \<le> 1" "1 < height override_example"
    and k: "0 < length (column_at override_example (column_index (width override_example) 1 1))"
    and a: "area (column_at override_example (column_index (width override_example) 1 1) ! 0) \<noteq> RC_NULL_AREA"
    and b: "heights_bounded override_example"
    and r: "walkableClimb_in_range 3"
    and m: "area (column_at (rcFilterLedgeSpans 1 3 override_example)
           (column_index (width override_example) 1 1) ! 0) = RC_NULL_AREA"
    by code_simp+
  from ledge_span_marked_iff[OF x y k a b r, of 1] a b r m show ?thesis by simp
qed

text \<open>
  Outside the range the rule on the integers and the 32-bit scan part ways: with
  \<open>walkableClimb = 2147483647\<close> the drop \<open>- walkableClimb - 2\<close> of the lone span of a
  1 x 1 grid overflows, the scan keeps \<open>minh\<close> at the sentinel and the span stays walkable,
  while the rule on the integers would mark it.
\<close>

lemma lone_span_overflow:
  "\<not> walkableClimb_in_range 2147483647 \<and>
   ledge_rule False 1 2147483647 lone_span_example 0 0 0 \<and>
   ledge_scan 1 2147483647 1 1 lone_span_example 0 0 2 MAX_HEIGHT = (MAX_HEIGHT, 2, 2) \<and>
   column_at (rcFilterLedgeSpans 1 2147483647 lone_span_example) 0 ! 0 = span 0 2 1"
  by code_simp

section \<open>rcFilterLedgeSpans: the steep-slope example\<close>


section \<open>rcFilterLedgeSpans: the grid boundary\<close>

lemma real_candidates_nonneg: "c \<in> set (real_candidates col) \<Longrightarrow> 0 \<le> fst c"
  by (induction col) auto

lemma drop_values_bot0:
  assumes "0 \<le> wc" "v \<in> set (drop_values wh wc w h solid x y 0 stop dir)"
  shows "- wc \<le> v"
  using assms real_candidates_nonneg
  by (fastforce simp: drop_values_def virtual_candidate_def split: if_splits)

lemma accessible_heights_bot0:
  assumes "v \<in> set (accessible_heights False wh wc w h solid x y 0 stop dir)"
  shows "0 \<le> v \<and> v \<le> wc"
  using assms real_candidates_nonneg
  by (fastforce simp: accessible_heights_def accessible_def split: if_splits)

lemma minh_bot0:
  assumes "0 \<le> wc"
  shows "- wc \<le> Min (set (MAX_HEIGHT # concat (map (drop_values wh wc w h solid x y 0 stop) ds)))"
proof -
  have "\<forall>v \<in> set (MAX_HEIGHT # concat (map (drop_values wh wc w h solid x y 0 stop) ds)). - wc \<le> v"
    using assms drop_values_bot0[OF assms] by (auto simp: MAX_HEIGHT_def)
  then show ?thesis by (subst Min_ge_iff) simp_all
qed

lemma ledge_rule_bot0:
  assumes "0 \<le> wc" "smax (column_at solid (column_index (width solid) x y) ! k) = 0"
  shows "\<not> ledge_rule False wh wc solid x y k"
proof -
  let ?s = "int (smax (column_at solid (column_index (width solid) x y) ! k))"
  let ?stop = "if Suc k < length (column_at solid (column_index (width solid) x y))
    then int (smin (column_at solid (column_index (width solid) x y) ! Suc k)) else MAX_HEIGHT"
  let ?D = "set (MAX_HEIGHT # concat (map (drop_values wh wc (width solid) (height solid) solid x y ?s ?stop) [0..<4]))"
  let ?A = "set (?s # concat (map (accessible_heights False wh wc (width solid) (height solid) solid x y ?s ?stop) [0..<4]))"
  have s0: "?s = 0" using assms(2) by simp
  have d: "- wc \<le> Min ?D" unfolding s0 by (rule minh_bot0[OF assms(1)])
  have lo: "\<forall>v \<in> ?A. 0 \<le> v" and hi: "\<forall>v \<in> ?A. v \<le> wc"
    unfolding s0 using assms(1) accessible_heights_bot0 by auto
  have "0 \<le> Min ?A" using lo by (subst Min_ge_iff) simp_all
  moreover have "Max ?A \<le> wc" using hi by (subst Max_le_iff) simp_all
  moreover have "ledge_rule False wh wc solid x y k \<longleftrightarrow> Min ?D < - wc \<or> Max ?A - Min ?A > wc"
    by (simp only: ledge_rule_def Let_def)
  ultimately show ?thesis using d by linarith
qed

lemma Min_split_direction:
  assumes "dir < 4" "f dir = [v]"
  shows "Min (set (m # concat (map f [0..<4]))) =
         min v (Min (set (m # concat (map f (filter (\<lambda>d. d \<noteq> dir) [0..<4])))))"
proof -
  have "set (m # concat (map f [0..<4])) =
        insert v (set (m # concat (map f (filter (\<lambda>d. d \<noteq> dir) [0..<4]))))"
    using assms by auto
  then show ?thesis by (simp only: Min_insert List.finite_set set_empty list.distinct simp_thms)
qed

lemma climb_2_in_range: "walkableClimb_in_range 2"
  by (simp add: walkableClimb_in_range_def INT_MAX_def MAX_HEIGHT_def)

lemma ledge_scan_minh_split:
  assumes "walkableClimb_in_range wc" "heights_bounded solid"
    and "0 \<le> sbot" "sbot \<le> MAX_HEIGHT" "0 \<le> stop" "stop \<le> MAX_HEIGHT"
    and "dir < 4" "neighbour_outside w h x y dir"
  shows "fst (ledge_scan wh wc w h solid x y sbot stop) =
         min (- wc - sbot)
           (Min (set (MAX_HEIGHT #
              concat (map (drop_values wh wc w h solid x y sbot stop)
                        (filter (\<lambda>d. d \<noteq> dir) [0..<4])))))"
proof -
  have "drop_values wh wc w h solid x y sbot stop dir = [- wc - sbot]"
    using assms(8) by (simp add: drop_values_def)
  from Min_split_direction[of dir "drop_values wh wc w h solid x y sbot stop" "- wc - sbot" MAX_HEIGHT,
      OF assms(7) this]
  show ?thesis by (simp only: ledge_scan_spec[OF assms(1-6)] fst_conv)
qed

text \<open>
  C3. For a cell of the grid, a direction \<open>dir\<close> that leaves the grid, bounded heights and a
  \<open>walkableClimb\<close> in range: the direction changes the scan state only by folding
  \<open>- walkableClimb - bot\<close> into \<open>minh\<close>, and the \<open>minh\<close> with which the scan of the pass ends
  is the minimum of that value and of what the other three directions contribute. With
  \<open>bot = 0\<close> and \<open>walkableClimb = 2\<close> the boundary term is \<open>-2\<close> and the final \<open>minh\<close> is not
  below \<open>-2\<close>; a span with top 0 in such a cell comes out of the pass as it went in.
\<close>

theorem ledge_boundary_contribution:
  assumes "0 \<le> x" "x < width solid" "0 \<le> y" "y < height solid"
    and "dir < 4"
    and "x + rcGetDirOffsetX dir < 0 \<or> y + rcGetDirOffsetY dir < 0 \<or>
         x + rcGetDirOffsetX dir \<ge> width solid \<or> y + rcGetDirOffsetY dir \<ge> height solid"
    and "heights_bounded solid" "walkableClimb_in_range walkableClimb"
    and "0 \<le> sbot" "sbot \<le> MAX_HEIGHT" "0 \<le> stop" "stop \<le> MAX_HEIGHT"
    and "k < length (column_at solid (column_index (width solid) x y))"
    and "smax (column_at solid (column_index (width solid) x y) ! k) = 0"
  shows "scan_dir walkableHeight walkableClimb (width solid) (height solid) solid x y sbot stop dir
           (minh, asmin, asmax) =
           (rcMin minh (- walkableClimb - sbot), asmin, asmax) \<and>
         fst (ledge_scan walkableHeight walkableClimb (width solid) (height solid) solid x y
                sbot stop) =
           min (- walkableClimb - sbot)
             (Min (set (MAX_HEIGHT #
                concat (map (drop_values walkableHeight walkableClimb (width solid) (height solid)
                               solid x y sbot stop)
                          (filter (\<lambda>d. d \<noteq> dir) [0..<4]))))) \<and>
         fst (ledge_scan walkableHeight 2 (width solid) (height solid) solid x y 0 stop) =
           min (- 2)
             (Min (set (MAX_HEIGHT #
                concat (map (drop_values walkableHeight 2 (width solid) (height solid)
                               solid x y 0 stop)
                          (filter (\<lambda>d. d \<noteq> dir) [0..<4]))))) \<and>
         \<not> fst (ledge_scan walkableHeight 2 (width solid) (height solid) solid x y 0 stop) < - 2 \<and>
         column_at (rcFilterLedgeSpans walkableHeight 2 solid) (column_index (width solid) x y) ! k =
           column_at solid (column_index (width solid) x y) ! k"
proof -
  have out: "neighbour_outside (width solid) (height solid) x y dir"
    using assms(6) by (simp add: neighbour_outside_def)
  have 1: "scan_dir walkableHeight walkableClimb (width solid) (height solid) solid x y sbot stop dir
           (minh, asmin, asmax) = (rcMin minh (- walkableClimb - sbot), asmin, asmax)"
    using assms(6)
    by (simp add: scan_dir_def Let_def int_neg_climb[OF assms(8)] int_sub_drop[OF assms(8-10)])
  have 2: "fst (ledge_scan walkableHeight walkableClimb (width solid) (height solid) solid x y
                sbot stop) =
           min (- walkableClimb - sbot)
             (Min (set (MAX_HEIGHT #
                concat (map (drop_values walkableHeight walkableClimb (width solid) (height solid)
                               solid x y sbot stop)
                          (filter (\<lambda>d. d \<noteq> dir) [0..<4])))))"
    by (rule ledge_scan_minh_split[OF assms(8,7,9-12,5) out])
  have z: "(0::int) \<le> 0" "(0::int) \<le> MAX_HEIGHT" by (simp_all add: MAX_HEIGHT_def)
  have 3: "fst (ledge_scan walkableHeight 2 (width solid) (height solid) solid x y 0 stop) =
           min (- 2)
             (Min (set (MAX_HEIGHT #
                concat (map (drop_values walkableHeight 2 (width solid) (height solid)
                               solid x y 0 stop)
                          (filter (\<lambda>d. d \<noteq> dir) [0..<4])))))"
    using ledge_scan_minh_split[OF climb_2_in_range assms(7) z assms(11,12,5) out, of walkableHeight]
    by simp
  have "- 2 \<le> fst (ledge_scan walkableHeight 2 (width solid) (height solid) solid x y 0 stop)"
    using minh_bot0[of 2 walkableHeight "width solid" "height solid" solid x y stop "[0..<4]"]
    by (simp only: ledge_scan_spec[OF climb_2_in_range assms(7) z assms(11,12)] fst_conv)
  then have 4: "\<not> fst (ledge_scan walkableHeight 2 (width solid) (height solid) solid x y 0 stop) < - 2"
    by simp
  have "\<not> ledge_decision walkableHeight 2 (width solid) (height solid) solid x y k"
    using ledge_rule_bot0[OF _ assms(14), of 2 walkableHeight]
    by (simp add: ledge_decision_rule[OF climb_2_in_range assms(7,13)])
  then have 5: "column_at (rcFilterLedgeSpans walkableHeight 2 solid) (column_index (width solid) x y) ! k =
           column_at solid (column_index (width solid) x y) ! k"
    by (simp add: ledge_pointwise[OF assms(1-4,13)] ledge_snapshot_span_def Let_def)
  from 1 2 3 4 5 show ?thesis by blast
qed

theorem ledge_boundary_contribution_witness:
  "heights_bounded edge_example \<and> walkableClimb_in_range 2 \<and>
   smax (column_at edge_example (column_index (width edge_example) 1 0) ! 0) = 0 \<and>
   scan_dir 1 2 (width edge_example) (height edge_example) edge_example 1 0 0 MAX_HEIGHT 3
     (MAX_HEIGHT, 0, 0) = (- 2, 0, 0) \<and>
   fst (ledge_scan 1 2 (width edge_example) (height edge_example) edge_example 1 0 0 MAX_HEIGHT) = - 2 \<and>
   column_at (rcFilterLedgeSpans 1 2 edge_example) (column_index (width edge_example) 1 0) ! 0 =
     span 0 0 1"
proof -
  have x: "(0::int) \<le> 1" "1 < width edge_example"
    and y: "(0::int) \<le> 0" "0 < height edge_example"
    and d: "(3::nat) < 4"
    and b: "heights_bounded edge_example"
    and r: "walkableClimb_in_range 2"
    and s: "(0::int) \<le> 0" "(0::int) \<le> MAX_HEIGHT" "(0::int) \<le> MAX_HEIGHT" "MAX_HEIGHT \<le> MAX_HEIGHT"
    and k: "0 < length (column_at edge_example (column_index (width edge_example) 1 0))"
    and z: "smax (column_at edge_example (column_index (width edge_example) 1 0) ! 0) = 0"
    and v: "scan_dir 1 2 (width edge_example) (height edge_example) edge_example 1 0 0 MAX_HEIGHT 3
              (MAX_HEIGHT, 0, 0) = (- 2, 0, 0)"
           "fst (ledge_scan 1 2 (width edge_example) (height edge_example) edge_example 1 0 0 MAX_HEIGHT) = - 2"
           "column_at edge_example (column_index (width edge_example) 1 0) ! 0 = span 0 0 1"
    by code_simp+
  have o: "1 + rcGetDirOffsetX 3 < 0 \<or> 0 + rcGetDirOffsetY 3 < 0 \<or>
           1 + rcGetDirOffsetX 3 \<ge> width edge_example \<or> 0 + rcGetDirOffsetY 3 \<ge> height edge_example"
    by (simp add: rcGetDirOffsetY_def)
  from ledge_boundary_contribution[OF x y d o b r s k z, of 1 MAX_HEIGHT 0 0] b r z v
  show ?thesis by simp
qed

text \<open>
  The boundary is harmless for \<open>bot = 0\<close> only: where a direction leaves the grid, every
  walkable span with a positive top is marked.
\<close>

lemma edge_span_marked:
  assumes "0 \<le> x" "x < width solid" "0 \<le> y" "y < height solid"
    and "dir < 4" "neighbour_outside (width solid) (height solid) x y dir"
    and "heights_bounded solid" "walkableClimb_in_range wc"
    and "k < length (column_at solid (column_index (width solid) x y))"
    and "area (column_at solid (column_index (width solid) x y) ! k) \<noteq> RC_NULL_AREA"
    and "0 < smax (column_at solid (column_index (width solid) x y) ! k)"
  shows "area (column_at (rcFilterLedgeSpans wh wc solid) (column_index (width solid) x y) ! k) =
         RC_NULL_AREA"
proof -
  let ?col = "column_at solid (column_index (width solid) x y)"
  let ?sbot = "int (smax (?col ! k))"
  let ?stop = "if Suc k < length ?col then int (smin (?col ! Suc k)) else MAX_HEIGHT"
  note r = span_heights_in_range[OF assms(7,9)]
  have "fst (ledge_scan wh wc (width solid) (height solid) solid x y ?sbot ?stop) \<le> - wc - ?sbot"
    by (simp only: ledge_scan_minh_split[OF assms(8,7) r assms(5,6)])
  then have "fst (ledge_scan wh wc (width solid) (height solid) solid x y ?sbot ?stop) < int_neg wc"
    using assms(11) by (simp add: int_neg_climb[OF assms(8)])
  moreover obtain m a b where
    e: "ledge_scan wh wc (width solid) (height solid) solid x y ?sbot ?stop = (m, a, b)"
    by (cases "ledge_scan wh wc (width solid) (height solid) solid x y ?sbot ?stop")
  ultimately have "m < int_neg wc" by simp
  then have "ledge_decision wh wc (width solid) (height solid) solid x y k"
    unfolding ledge_decision_def Let_def e by simp
  then show ?thesis
    using assms(10) by (simp add: ledge_pointwise[OF assms(1-4,9)] ledge_snapshot_span_def Let_def)
qed

end
